theory Spec2Isabelle
  imports Complex_Main "HOL-Library.AList" "HOL-Library.Log_Nat"
begin

section \<open>Rows of the fund data table\<close>

text \<open>
  The three pages read the rows of the table \<^verbatim>\<open>fund_data\<close> and reduce them in one pass each.
  A row is an untyped object in the source. Its fields are modelled by what the code reads
  from them:
  \<^item> a text field is \<open>None\<close> when it is null or missing;
  \<^item> an amount is \<open>None\<close> when it is null or missing, and a number otherwise: the real
    value of a finite double. The definitions accept every real;
  \<^item> the flag \<open>repaid\<close> is the truthiness of the field of that name;
  \<^item> a date field is modelled by what the runtime's \<^verbatim>\<open>Date\<close> constructor makes of it.
\<close>

datatype date_field =
    DNull                \<comment> \<open>null: falsy, \<^verbatim>\<open>new Date(null)\<close> is the epoch\<close>
  | DUndefined           \<comment> \<open>a missing field: falsy, \<^verbatim>\<open>new Date(undefined)\<close> is an invalid date\<close>
  | DEmpty               \<comment> \<open>the empty text: falsy, an invalid date\<close>
  | DInvalid             \<comment> \<open>a non-empty text that is no date: truthy, an invalid date\<close>
  | DTime int            \<comment> \<open>a text that is a date: truthy, milliseconds since the epoch\<close>

record fund_record =
  provider_name_per_tbr :: "string option"
  total_sent :: "real option"
  total_repaid :: "real option"
  case_status :: "string option"
  repaid :: bool
  origination_date :: date_field
  repayment_date :: date_field

definition truthy_text :: "string option \<Rightarrow> bool" where
  \<comment> \<open>\<^verbatim>\<open>!provider\<close> is true for null, a missing field and the empty text\<close>
  "truthy_text s = (case s of None \<Rightarrow> False | Some t \<Rightarrow> t \<noteq> [])"

definition truthy_num :: "real option \<Rightarrow> bool" where
  "truthy_num x = (case x of None \<Rightarrow> False | Some v \<Rightarrow> v \<noteq> 0)"

definition or_zero :: "real option \<Rightarrow> real" where
  \<comment> \<open>\<^verbatim>\<open>x || 0\<close>\<close>
  "or_zero x = (if truthy_num x then (case x of None \<Rightarrow> 0 | Some v \<Rightarrow> v) else 0)"

section \<open>Numbers of the runtime\<close>

text \<open>
  A number of the runtime is a binary64 value: a finite double, an infinity or NaN. The sum of
  the providers page is such a sum: every addition rounds to the nearest double, ties to the
  even significand, and an overflow gives an infinity. The two zeros are one value here; the
  pages divide by positive numbers only.

  The grouped totals of the providers page are modelled with this arithmetic, because a
  statement about their sums depends on the rounding. The scores of the analytics page and
  the curves of the curves page are modelled in the reals.
\<close>

datatype jsnum = Fin real | PosInf | NegInf | NaN

definition pow2 :: "int \<Rightarrow> real" where
  "pow2 e = (if 0 \<le> e then 2 ^ nat e else 1 / 2 ^ nat (- e))"

definition round_even :: "real \<Rightarrow> int" where
  \<comment> \<open>the nearest integer, the even one of two nearest\<close>
  "round_even y =
     (let f = \<lfloor>y\<rfloor>
      in if y - of_int f < 1 / 2 then f
         else if 1 / 2 < y - of_int f then f + 1
         else if even f then f else f + 1)"

definition binade :: "real \<Rightarrow> int" where
  \<comment> \<open>for \<open>x \<noteq> 0\<close> the exponent \<open>e\<close> with \<open>2 ^ e \<le> \<bar>x\<bar> < 2 ^ (e + 1)\<close>\<close>
  "binade x =
     (if 1 \<le> \<bar>x\<bar> then bitlen \<lfloor>\<bar>x\<bar>\<rfloor> - 1 else - bitlen (\<lceil>1 / \<bar>x\<bar>\<rceil> - 1))"

definition double_round :: "real \<Rightarrow> jsnum" where
  \<comment> \<open>rounding to binary64: 53 bits of significand, exponents from -1022 (below it the
      spacing of the subnormal numbers) to 1023\<close>
  "double_round x =
     (if x = 0 then Fin 0
      else
        let q = pow2 (max (binade x) (- 1022) - 52);
            y = of_int (round_even (x / q)) * q
        in if pow2 1024 \<le> \<bar>y\<bar> then (if 0 < x then PosInf else NegInf) else Fin y)"

fun js_add :: "jsnum \<Rightarrow> jsnum \<Rightarrow> jsnum" where
  "js_add (Fin a) (Fin b) = double_round (a + b)"
| "js_add NaN _ = NaN"
| "js_add _ NaN = NaN"
| "js_add PosInf NegInf = NaN"
| "js_add NegInf PosInf = NaN"
| "js_add PosInf _ = PosInf"
| "js_add _ PosInf = PosInf"
| "js_add NegInf _ = NegInf"
| "js_add _ NegInf = NegInf"

fun js_mul :: "jsnum \<Rightarrow> jsnum \<Rightarrow> jsnum" where
  "js_mul (Fin a) (Fin b) = double_round (a * b)"
| "js_mul NaN _ = NaN"
| "js_mul _ NaN = NaN"
| "js_mul PosInf (Fin b) = (if b = 0 then NaN else if 0 < b then PosInf else NegInf)"
| "js_mul NegInf (Fin b) = (if b = 0 then NaN else if 0 < b then NegInf else PosInf)"
| "js_mul (Fin a) PosInf = (if a = 0 then NaN else if 0 < a then PosInf else NegInf)"
| "js_mul (Fin a) NegInf = (if a = 0 then NaN else if 0 < a then NegInf else PosInf)"
| "js_mul PosInf PosInf = PosInf"
| "js_mul NegInf NegInf = PosInf"
| "js_mul PosInf NegInf = NegInf"
| "js_mul NegInf PosInf = NegInf"

fun js_div :: "jsnum \<Rightarrow> jsnum \<Rightarrow> jsnum" where
  \<comment> \<open>a zero divisor is taken as the positive zero\<close>
  "js_div (Fin a) (Fin b) =
     (if b = 0 then (if a = 0 then NaN else if 0 < a then PosInf else NegInf)
      else double_round (a / b))"
| "js_div NaN _ = NaN"
| "js_div _ NaN = NaN"
| "js_div (Fin a) PosInf = Fin 0"
| "js_div (Fin a) NegInf = Fin 0"
| "js_div PosInf (Fin b) = (if b < 0 then NegInf else PosInf)"
| "js_div NegInf (Fin b) = (if b < 0 then PosInf else NegInf)"
| "js_div PosInf PosInf = NaN"
| "js_div PosInf NegInf = NaN"
| "js_div NegInf PosInf = NaN"
| "js_div NegInf NegInf = NaN"

fun js_positive :: "jsnum \<Rightarrow> bool" where
  \<comment> \<open>\<^verbatim>\<open>x > 0\<close>\<close>
  "js_positive (Fin a) = (0 < a)"
| "js_positive PosInf = True"
| "js_positive NegInf = False"
| "js_positive NaN = False"

definition finite_value :: "jsnum \<Rightarrow> real" where
  \<comment> \<open>the real value of a finite number\<close>
  "finite_value x = (case x of Fin a \<Rightarrow> a | _ \<Rightarrow> 0)"

definition js_sum :: "jsnum list \<Rightarrow> jsnum" where
  \<comment> \<open>the sum of the runtime from left to right, starting at 0\<close>
  "js_sum xs = foldl js_add (Fin 0) xs"

section \<open>Providers page: grouping and totals\<close>

text \<open>
  The \<^verbatim>\<open>Map\<close> of the runtime keeps its keys in insertion order. It is an association list;
  \<^const>\<open>AList.update\<close> replaces the value of a present key in place and appends an absent
  key at the end, as \<^verbatim>\<open>Map.set\<close> does. The counters are natural numbers: they count rows
  of an array, far below the first integer that a double cannot hold.
\<close>

record provider_bucket =
  p_provider_name_per_tbr :: string
  p_total_sent :: jsnum
  p_total_repaid :: jsnum
  p_case_count :: nat
  p_pending_cases :: nat
  p_closed_cases :: nat
  p_total_multiple :: jsnum

definition new_bucket :: "string \<Rightarrow> provider_bucket" where
  "new_bucket provider =
     \<lparr>p_provider_name_per_tbr = provider, p_total_sent = Fin 0, p_total_repaid = Fin 0,
      p_case_count = 0, p_pending_cases = 0, p_closed_cases = 0, p_total_multiple = Fin 0\<rparr>"

definition add_record :: "fund_record \<Rightarrow> provider_bucket \<Rightarrow> provider_bucket" where
  \<comment> \<open>the updates of \<^verbatim>\<open>p\<close> in the body of the loop; \<^verbatim>\<open>record.total_sent > 0\<close> is false for
      a null or missing amount\<close>
  "add_record r p =
     (let p1 = p\<lparr>p_total_sent := js_add (p_total_sent p) (Fin (or_zero (total_sent r))),
                 p_total_repaid := js_add (p_total_repaid p) (Fin (or_zero (total_repaid r))),
                 p_case_count := p_case_count p + 1\<rparr>;
          p2 = (if case_status r = Some ''Pending''
                then p1\<lparr>p_pending_cases := p_pending_cases p1 + 1\<rparr>
                else if repaid r then p1\<lparr>p_closed_cases := p_closed_cases p1 + 1\<rparr>
                else p1)
      in case total_sent r of
           None \<Rightarrow> p2
         | Some sent \<Rightarrow>
             if sent > 0
             then p2\<lparr>p_total_multiple :=
                       js_add (p_total_multiple p2)
                         (js_div (Fin (or_zero (total_repaid r))) (Fin sent))\<rparr>
             else p2)"

definition provider_step ::
  "(string \<times> provider_bucket) list \<Rightarrow> fund_record \<Rightarrow> (string \<times> provider_bucket) list" where
  \<comment> \<open>one call of the callback of \<^verbatim>\<open>data.forEach\<close>: skip a row without provider, else look
      the bucket up or create it, and update it\<close>
  "provider_step providerMap r =
     (case provider_name_per_tbr r of
        None \<Rightarrow> providerMap
      | Some provider \<Rightarrow>
          if provider = [] then providerMap
          else
            let p = (case map_of providerMap provider of
                       None \<Rightarrow> new_bucket provider
                     | Some b \<Rightarrow> b)
            in AList.update provider (add_record r p) providerMap)"

definition providerMap_of :: "fund_record list \<Rightarrow> (string \<times> provider_bucket) list" where
  "providerMap_of data = foldl provider_step [] data"

record provider_data =
  pd_provider_name_per_tbr :: string
  pd_total_sent :: jsnum
  pd_total_repaid :: jsnum
  pd_case_count :: nat
  pd_avg_multiple :: jsnum
  pd_pending_cases :: nat
  pd_closed_cases :: nat
  pd_recovery_rate :: jsnum

definition process_provider :: "provider_bucket \<Rightarrow> provider_data" where
  "process_provider p =
     \<lparr>pd_provider_name_per_tbr = p_provider_name_per_tbr p,
      pd_total_sent = p_total_sent p,
      pd_total_repaid = p_total_repaid p,
      pd_case_count = p_case_count p,
      pd_avg_multiple =
        (if p_case_count p > 0
         then js_div (p_total_multiple p) (Fin (real (p_case_count p)))
         else Fin 0),
      pd_pending_cases = p_pending_cases p,
      pd_closed_cases = p_closed_cases p,
      pd_recovery_rate =
        (if js_positive (p_total_sent p)
         then js_mul (js_div (p_total_repaid p) (p_total_sent p)) (Fin 100)
         else Fin 0)\<rparr>"

definition fetchProviderData :: "fund_record list \<Rightarrow> provider_data list" where
  "fetchProviderData data = map process_provider (map snd (providerMap_of data))"

record portfolio_totals =
  t_invested :: jsnum
  t_repaid :: jsnum
  t_cases :: nat

definition totals_of :: "provider_data list \<Rightarrow> portfolio_totals" where
  \<comment> \<open>the portfolio totals of the page: \<^verbatim>\<open>providers.reduce\<close> over the buckets\<close>
  "totals_of providers =
     foldl (\<lambda>acc p. \<lparr>t_invested = js_add (t_invested acc) (pd_total_sent p),
                      t_repaid = js_add (t_repaid acc) (pd_total_repaid p),
                      t_cases = t_cases acc + pd_case_count p\<rparr>)
       \<lparr>t_invested = Fin 0, t_repaid = Fin 0, t_cases = 0\<rparr> providers"

definition attributed :: "fund_record \<Rightarrow> bool" where
  \<comment> \<open>the rows that pass the guard \<^verbatim>\<open>if (!provider) return\<close>\<close>
  "attributed r = truthy_text (provider_name_per_tbr r)"

definition attributed_to :: "string \<Rightarrow> fund_record \<Rightarrow> bool" where
  "attributed_to k r = (attributed r \<and> provider_name_per_tbr r = Some k)"

definition bucket_of :: "(string \<times> provider_bucket) list \<Rightarrow> string \<Rightarrow> provider_bucket" where
  \<comment> \<open>the bucket the loop body works on: the stored one, or a fresh one\<close>
  "bucket_of m k = (case map_of m k of None \<Rightarrow> new_bucket k | Some b \<Rightarrow> b)"

definition amounts_of ::
  "(fund_record \<Rightarrow> real option) \<Rightarrow> string \<Rightarrow> fund_record list \<Rightarrow> real list" where
  \<comment> \<open>the amounts of the rows of one provider, in the order of the rows\<close>
  "amounts_of field k data = map (\<lambda>r. or_zero (field r)) (filter (attributed_to k) data)"

definition whole_amounts :: "(fund_record \<Rightarrow> real option) \<Rightarrow> fund_record list \<Rightarrow> bool" where
  \<comment> \<open>the amounts of the rows with a provider are whole numbers, and their absolute values
      add up to at most \<open>2 ^ 53\<close>: no addition of them rounds\<close>
  "whole_amounts field data =
     (list_all (\<lambda>r. or_zero (field r) \<in> \<int>) (filter attributed data)
      \<and> sum_list (map (\<lambda>r. \<bar>or_zero (field r)\<bar>) (filter attributed data)) \<le> 2 ^ 53)"

section \<open>Dates of the runtime\<close>

fun new_date :: "date_field \<Rightarrow> int option" where
  \<comment> \<open>\<^verbatim>\<open>new Date(x).getTime()\<close>; \<open>None\<close> is the time value NaN of an invalid date\<close>
  "new_date DNull = Some 0"
| "new_date DUndefined = None"
| "new_date DEmpty = None"
| "new_date DInvalid = None"
| "new_date (DTime t) = Some t"

fun truthy_date :: "date_field \<Rightarrow> bool" where
  "truthy_date DInvalid = True"
| "truthy_date (DTime t) = True"
| "truthy_date _ = False"

definition civil_year_month :: "int \<Rightarrow> int \<times> int" where
  \<comment> \<open>year and month (1 to 12) of a day number counted from 1970-01-01, proleptic Gregorian\<close>
  "civil_year_month days =
     (let z = days + 719468;
          era = z div 146097;
          doe = z - era * 146097;
          yoe = (doe - doe div 1460 + doe div 36524 - doe div 146096) div 365;
          doy = doe - (365 * yoe + yoe div 4 - yoe div 100);
          mp = (5 * doy + 2) div 153;
          m = (if mp < 10 then mp + 3 else mp - 9)
      in (yoe + era * 400 + (if m \<le> 2 then 1 else 0), m))"

fun pad_digits :: "nat \<Rightarrow> nat \<Rightarrow> string" where
  \<comment> \<open>the last \<open>w\<close> decimal digits of \<open>n\<close>, with leading zeros\<close>
  "pad_digits 0 n = []"
| "pad_digits (Suc w) n = pad_digits w (n div 10) @ [''0123456789'' ! (n mod 10)]"

definition iso_month :: "int \<Rightarrow> string" where
  \<comment> \<open>\<^verbatim>\<open>toISOString().slice(0, 7)\<close> of a valid date: \<^verbatim>\<open>YYYY-MM\<close> for the years 0 to 9999; the
      expanded form \<^verbatim>\<open>+YYYYYY-MM-...\<close> of the other years is cut after the year\<close>
  "iso_month t =
     (case civil_year_month (t div 86400000) of
        (y, m) \<Rightarrow>
          if 0 \<le> y \<and> y \<le> 9999 then pad_digits 4 (nat y) @ ''-'' @ pad_digits 2 (nat m)
          else (if y < 0 then ''-'' else ''+'') @ pad_digits 6 (nat \<bar>y\<bar>))"

section \<open>Analytics page: scores and grades\<close>

text \<open>
  A number that depends on a date can be NaN in the source: it is a \<open>real option\<close> with
  \<open>None\<close> for NaN. Arithmetic, \<^verbatim>\<open>Math.min\<close> and \<^verbatim>\<open>Math.max\<close> pass NaN on, and every
  comparison with NaN is false.
\<close>

datatype js_error = RangeError

record month_perf =
  invested :: real
  recovered :: real

record analytics_acc =
  a_provider :: string
  totalInvested :: real
  totalRecovered :: real
  caseCount :: nat
  recoveryTimes :: "real option list"
  monthlyPerformance :: "(string \<times> month_perf) list"

definition new_analytics :: "string \<Rightarrow> analytics_acc" where
  \<comment> \<open>the field \<^verbatim>\<open>gradeDistribution\<close> of the source is never read or written again and is
      left out\<close>
  "new_analytics provider =
     \<lparr>a_provider = provider, totalInvested = 0, totalRecovered = 0, caseCount = 0,
      recoveryTimes = [], monthlyPerformance = []\<rparr>"

definition recoveryDays :: "fund_record \<Rightarrow> real option" where
  \<comment> \<open>\<^verbatim>\<open>Math.floor\<close> of the difference of the two times over the milliseconds of a day\<close>
  "recoveryDays r =
     (case new_date (repayment_date r) of
        None \<Rightarrow> None
      | Some t1 \<Rightarrow>
          (case new_date (origination_date r) of
             None \<Rightarrow> None
           | Some t0 \<Rightarrow> Some (real_of_int ((t1 - t0) div 86400000))))"

definition add_month :: "fund_record \<Rightarrow> month_perf \<Rightarrow> month_perf" where
  "add_month r monthData =
     monthData\<lparr>invested := invested monthData + or_zero (total_sent r),
               recovered := recovered monthData + or_zero (total_repaid r)\<rparr>"

definition analytics_step ::
  "(string \<times> analytics_acc) list \<Rightarrow> fund_record \<Rightarrow> js_error + (string \<times> analytics_acc) list"
  where
  \<comment> \<open>one call of the callback of \<^verbatim>\<open>data.forEach\<close>; \<^verbatim>\<open>toISOString\<close> throws a RangeError on an
      invalid date\<close>
  "analytics_step providerAnalytics r =
     (case provider_name_per_tbr r of
        None \<Rightarrow> Inr providerAnalytics
      | Some provider \<Rightarrow>
          if provider = [] then Inr providerAnalytics
          else
            let analytics = (case map_of providerAnalytics provider of
                               None \<Rightarrow> new_analytics provider
                             | Some a \<Rightarrow> a);
                a1 = analytics\<lparr>totalInvested := totalInvested analytics + or_zero (total_sent r),
                               totalRecovered :=
                                 totalRecovered analytics + or_zero (total_repaid r),
                               caseCount := caseCount analytics + 1\<rparr>;
                a2 = (if truthy_date (origination_date r) \<and> truthy_date (repayment_date r)
                      then a1\<lparr>recoveryTimes := recoveryTimes a1 @ [recoveryDays r]\<rparr>
                      else a1)
            in (case new_date (origination_date r) of
                  None \<Rightarrow> Inl RangeError
                | Some t \<Rightarrow>
                    let month = iso_month t;
                        monthData = (case map_of (monthlyPerformance a2) month of
                                       None \<Rightarrow> \<lparr>invested = 0, recovered = 0\<rparr>
                                     | Some d \<Rightarrow> d);
                        a3 = a2\<lparr>monthlyPerformance :=
                                   AList.update month (add_month r monthData)
                                     (monthlyPerformance a2)\<rparr>
                    in Inr (AList.update provider a3 providerAnalytics)))"

fun analytics_loop ::
  "(string \<times> analytics_acc) list \<Rightarrow> fund_record list
   \<Rightarrow> js_error + (string \<times> analytics_acc) list" where
  \<comment> \<open>\<^verbatim>\<open>data.forEach\<close>: an exception of the callback ends the loop\<close>
  "analytics_loop m [] = Inr m"
| "analytics_loop m (r # rs) =
     (case analytics_step m r of Inl e \<Rightarrow> Inl e | Inr m' \<Rightarrow> analytics_loop m' rs)"

definition nan_add :: "real option \<Rightarrow> real option \<Rightarrow> real option" where
  "nan_add a b = (case a of None \<Rightarrow> None | Some x \<Rightarrow> map_option (\<lambda>y. x + y) b)"

definition recoveryRate_of :: "analytics_acc \<Rightarrow> real" where
  "recoveryRate_of analytics =
     (if totalInvested analytics > 0
      then totalRecovered analytics / totalInvested analytics
      else 0)"

definition avgRecoveryTime_of :: "analytics_acc \<Rightarrow> real option" where
  "avgRecoveryTime_of analytics =
     (if length (recoveryTimes analytics) > 0
      then map_option (\<lambda>s. s / real (length (recoveryTimes analytics)))
             (foldl nan_add (Some 0) (recoveryTimes analytics))
      else Some 365)"

definition riskScore_calc :: "real \<Rightarrow> real \<Rightarrow> real" where
  "riskScore_calc recoveryRate avgRecoveryTime =
     max 0 (min 100 ((1 - recoveryRate) * 50 + min (avgRecoveryTime / 365) 1 * 50))"

definition riskScore_of :: "analytics_acc \<Rightarrow> real option" where
  "riskScore_of analytics =
     map_option (riskScore_calc (recoveryRate_of analytics)) (avgRecoveryTime_of analytics)"

definition performanceScore_calc :: "real \<Rightarrow> nat \<Rightarrow> real \<Rightarrow> real" where
  "performanceScore_calc recoveryRate cases riskScore =
     min 100 (recoveryRate * 40 + min (real cases / 10) 1 * 20 + (1 - riskScore / 100) * 40)"

definition performanceScore_of :: "analytics_acc \<Rightarrow> real option" where
  "performanceScore_of analytics =
     map_option (performanceScore_calc (recoveryRate_of analytics) (caseCount analytics))
       (riskScore_of analytics)"

definition recoveryVelocity_of :: "analytics_acc \<Rightarrow> real" where
  "recoveryVelocity_of analytics =
     (case avgRecoveryTime_of analytics of
        None \<Rightarrow> 0
      | Some avgRecoveryTime \<Rightarrow>
          if avgRecoveryTime > 0
          then (recoveryRate_of analytics * 100) / (avgRecoveryTime / 30)
          else 0)"

definition monthlyRates_of :: "analytics_acc \<Rightarrow> real list" where
  "monthlyRates_of analytics =
     map (\<lambda>m. if invested m > 0 then recovered m / invested m else 0)
       (map snd (monthlyPerformance analytics))"

definition consistency_of :: "analytics_acc \<Rightarrow> real option" where
  \<comment> \<open>without a month the two averages are 0 / 0, that is NaN\<close>
  "consistency_of analytics =
     (let monthlyRates = monthlyRates_of analytics
      in if monthlyRates = [] then None
         else
           let avgRate = sum_list monthlyRates / real (length monthlyRates);
               variance = sum_list (map (\<lambda>rate. (rate - avgRate) ^ 2) monthlyRates)
                            / real (length monthlyRates)
           in Some (max 0 (100 - sqrt variance * 100)))"

definition efficiency_of :: "analytics_acc \<Rightarrow> real option" where
  "efficiency_of analytics =
     (case consistency_of analytics of
        None \<Rightarrow> None
      | Some consistency \<Rightarrow>
          (case performanceScore_of analytics of
             None \<Rightarrow> None
           | Some performanceScore \<Rightarrow>
               Some (min 100 (recoveryVelocity_of analytics * 10 + consistency * 0.3
                              + performanceScore * 0.6))))"

definition investmentGrade_calc :: "real \<Rightarrow> string" where
  "investmentGrade_calc performanceScore =
     (if performanceScore \<ge> 90 then ''A''
      else if performanceScore \<ge> 80 then ''B''
      else if performanceScore \<ge> 70 then ''C''
      else if performanceScore \<ge> 60 then ''D''
      else if performanceScore \<ge> 50 then ''E''
      else ''F'')"

definition investmentGrade_of :: "analytics_acc \<Rightarrow> string" where
  \<comment> \<open>no comparison holds for NaN, so the initial grade stays\<close>
  "investmentGrade_of analytics =
     (case performanceScore_of analytics of
        None \<Rightarrow> ''F''
      | Some performanceScore \<Rightarrow> investmentGrade_calc performanceScore)"

record analytics_data =
  ad_provider :: string
  ad_investmentGrade :: string
  ad_riskScore :: "real option"
  ad_performanceScore :: "real option"
  ad_recoveryVelocity :: real
  ad_consistency :: "real option"
  ad_volume :: real
  ad_efficiency :: "real option"

definition process_analytics :: "analytics_acc \<Rightarrow> analytics_data" where
  "process_analytics analytics =
     \<lparr>ad_provider = a_provider analytics,
      ad_investmentGrade = investmentGrade_of analytics,
      ad_riskScore = riskScore_of analytics,
      ad_performanceScore = performanceScore_of analytics,
      ad_recoveryVelocity = recoveryVelocity_of analytics,
      ad_consistency = consistency_of analytics,
      ad_volume = totalInvested analytics,
      ad_efficiency = efficiency_of analytics\<rparr>"

definition fetchAnalyticsData :: "fund_record list \<Rightarrow> js_error + analytics_data list" where
  \<comment> \<open>\<open>Inl\<close>: the exception reaches the \<^verbatim>\<open>catch\<close> of the page, which logs it; no analytics
      are set\<close>
  "fetchAnalyticsData data =
     (case analytics_loop [] data of
        Inl e \<Rightarrow> Inl e
      | Inr providerAnalytics \<Rightarrow> Inr (map process_analytics (map snd providerAnalytics)))"

section \<open>Curves page: collection curves\<close>

record curve_month =
  c_totalInvested :: real
  c_totalRecovered :: real
  c_caseCount :: nat

definition monthsSince_of :: "int \<Rightarrow> fund_record \<Rightarrow> int option" where
  \<comment> \<open>\<open>now\<close> is the time \<^verbatim>\<open>new Date()\<close> reads from the clock; the divisor is the milliseconds
      of 30 days; \<open>None\<close> is NaN\<close>
  "monthsSince_of now r =
     (let originDate = new_date (origination_date r);
          repaidDate = (if truthy_date (repayment_date r) then new_date (repayment_date r)
                        else Some now)
      in case repaidDate of
           None \<Rightarrow> None
         | Some t1 \<Rightarrow>
             (case originDate of
                None \<Rightarrow> None
              | Some t0 \<Rightarrow> Some ((t1 - t0) div 2592000000)))"

definition month_step ::
  "fund_record \<Rightarrow> int \<Rightarrow> (nat \<times> curve_month) list \<Rightarrow> nat \<Rightarrow> (nat \<times> curve_month) list"
  where
  \<comment> \<open>the body of the loop over the months of one row\<close>
  "month_step r monthsSince providerCurve month =
     (let monthData = (case map_of providerCurve month of
                         None \<Rightarrow> \<lparr>c_totalInvested = 0, c_totalRecovered = 0, c_caseCount = 0\<rparr>
                       | Some d \<Rightarrow> d);
          d1 = monthData\<lparr>c_totalInvested := c_totalInvested monthData + or_zero (total_sent r)\<rparr>;
          d2 = (if truthy_num (total_repaid r) \<and> monthsSince > 0
                then
                  let recoveryProgress = min (real month / real_of_int monthsSince) 1
                  in d1\<lparr>c_totalRecovered :=
                          c_totalRecovered d1 + or_zero (total_repaid r) * recoveryProgress\<rparr>
                else d1);
          d3 = d2\<lparr>c_caseCount := c_caseCount d2 + 1\<rparr>
      in AList.update month d3 providerCurve)"

definition months_loop ::
  "fund_record \<Rightarrow> int option \<Rightarrow> (nat \<times> curve_month) list \<Rightarrow> (nat \<times> curve_month) list" where
  \<comment> \<open>\<^verbatim>\<open>for (let month = 0; month <= Math.min(monthsSince, 36); month++)\<close>; the bound is NaN
      when \<^verbatim>\<open>monthsSince\<close> is, and then the body never runs\<close>
  "months_loop r monthsSince providerCurve =
     (case monthsSince of
        None \<Rightarrow> providerCurve
      | Some ms \<Rightarrow> foldl (month_step r ms) providerCurve [0..<nat (min ms 36 + 1)])"

definition curve_step ::
  "int \<Rightarrow> (string \<times> (nat \<times> curve_month) list) list \<Rightarrow> fund_record
   \<Rightarrow> (string \<times> (nat \<times> curve_month) list) list" where
  "curve_step now curveMap r =
     (case provider_name_per_tbr r of
        None \<Rightarrow> curveMap
      | Some provider \<Rightarrow>
          if provider = [] then curveMap
          else
            let monthsSince = monthsSince_of now r;
                providerCurve = (case map_of curveMap provider of None \<Rightarrow> [] | Some c \<Rightarrow> c)
            in AList.update provider (months_loop r monthsSince providerCurve) curveMap)"

definition curveMap_of ::
  "int \<Rightarrow> fund_record list \<Rightarrow> (string \<times> (nat \<times> curve_month) list) list" where
  "curveMap_of now data = foldl (curve_step now) [] data"

record curve_data =
  cd_month :: nat
  cd_provider :: string
  cd_recoveryRate :: real
  cd_cumulativeRecovery :: real
  cd_cases :: nat

definition month_rate :: "curve_month \<Rightarrow> real" where
  "month_rate d =
     (if c_totalInvested d > 0 then (c_totalRecovered d / c_totalInvested d) * 100 else 0)"

fun emit_points :: "string \<Rightarrow> real \<Rightarrow> (nat \<times> curve_month) list \<Rightarrow> curve_data list" where
  \<comment> \<open>\<^verbatim>\<open>providerCurve.forEach\<close>, with the running value of \<^verbatim>\<open>cumulative\<close>\<close>
  "emit_points provider cumulative [] = []"
| "emit_points provider cumulative ((month, d) # rest) =
     (let recoveryRate = month_rate d;
          cumulative' = cumulative + recoveryRate
      in \<lparr>cd_month = month, cd_provider = provider, cd_recoveryRate = recoveryRate,
          cd_cumulativeRecovery = cumulative', cd_cases = c_caseCount d\<rparr>
         # emit_points provider cumulative' rest)"

definition curves_of :: "(string \<times> (nat \<times> curve_month) list) list \<Rightarrow> curve_data list" where
  \<comment> \<open>\<^verbatim>\<open>curveMap.forEach\<close>\<close>
  "curves_of curveMap =
     concat (map (\<lambda>(provider, providerCurve). emit_points provider 0 providerCurve) curveMap)"

definition fetchCurveData :: "int \<Rightarrow> fund_record list \<Rightarrow> curve_data list" where
  "fetchCurveData now data = curves_of (curveMap_of now data)"

definition provider_points :: "string \<Rightarrow> curve_data list \<Rightarrow> curve_data list" where
  \<comment> \<open>the points of one provider, in the order of the output\<close>
  "provider_points provider curves = filter (\<lambda>c. cd_provider c = provider) curves"

definition curve_keys_ok :: "(string \<times> (nat \<times> curve_month) list) list \<Rightarrow> bool" where
  \<comment> \<open>the invariant of the loop over the rows: one curve per provider, and the months of a
      curve are 0, 1, 2, ... in this order\<close>
  "curve_keys_ok cm =
     (distinct (map fst cm)
      \<and> list_all (\<lambda>pc. map fst (snd pc) = [0..<length (snd pc)]) cm)"

section \<open>The three computations together\<close>

definition pipeline ::
  "int \<Rightarrow> fund_record list
   \<Rightarrow> provider_data list \<times> (js_error + analytics_data list) \<times> curve_data list" where
  "pipeline now data = (fetchProviderData data, fetchAnalyticsData data, fetchCurveData now data)"

section \<open>The risk score as the specification words it\<close>

definition spec_clamp :: "real \<Rightarrow> real \<Rightarrow> real \<Rightarrow> real" where
  "spec_clamp lo hi x = (if x < lo then lo else if hi < x then hi else x)"

definition spec_recoveryRate :: "real \<Rightarrow> real \<Rightarrow> real" where
  "spec_recoveryRate repaid_total sent_total =
     (if sent_total > 0 then repaid_total / sent_total else 0)"

definition spec_riskScore :: "real \<Rightarrow> real \<Rightarrow> real" where
  "spec_riskScore recoveryRate avgRecoveryDays =
     spec_clamp 0 100 ((1 - recoveryRate) * 50 + min (avgRecoveryDays / 365) 1 * 50)"

section \<open>Example rows\<close>

definition row_closed :: fund_record where
  "row_closed =
     \<lparr>provider_name_per_tbr = Some ''X'', total_sent = Some 1000, total_repaid = Some 500,
      case_status = Some ''closed'', repaid = True,
      origination_date = DTime 0, repayment_date = DTime 25920000000\<rparr>"

definition row_pending :: fund_record where
  "row_pending =
     \<lparr>provider_name_per_tbr = Some ''X'', total_sent = Some 500, total_repaid = Some 500,
      case_status = Some ''Pending'', repaid = False,
      origination_date = DTime 0, repayment_date = DNull\<rparr>"

definition row_unattributed :: fund_record where
  "row_unattributed =
     \<lparr>provider_name_per_tbr = None, total_sent = Some 70, total_repaid = Some 7,
      case_status = None, repaid = False,
      origination_date = DNull, repayment_date = DNull\<rparr>"

text \<open>Three rows whose amounts sent are the doubles of 0.1, 0.2 and 0.7.\<close>

definition row_tenth :: fund_record where
  "row_tenth =
     \<lparr>provider_name_per_tbr = Some ''A'',
      total_sent = Some (3602879701896397 / 36028797018963968), total_repaid = Some 0,
      case_status = Some ''Pending'', repaid = False,
      origination_date = DTime 0, repayment_date = DNull\<rparr>"

definition row_fifth :: fund_record where
  "row_fifth =
     \<lparr>provider_name_per_tbr = Some ''B'',
      total_sent = Some (3602879701896397 / 18014398509481984), total_repaid = Some 0,
      case_status = Some ''Pending'', repaid = False,
      origination_date = DTime 0, repayment_date = DNull\<rparr>"

definition row_seven_tenths :: fund_record where
  "row_seven_tenths =
     \<lparr>provider_name_per_tbr = Some ''B'',
      total_sent = Some (3152519739159347 / 4503599627370496), total_repaid = Some 0,
      case_status = Some ''Pending'', repaid = False,
      origination_date = DTime 0, repayment_date = DNull\<rparr>"

definition rows_rounding :: "fund_record list" where
  "rows_rounding = [row_tenth, row_fifth, row_seven_tenths]"

text \<open>Two rows with the status texts closed and pending and no flag \<^verbatim>\<open>repaid\<close>.\<close>

definition row_literal_closed :: fund_record where
  "row_literal_closed =
     \<lparr>provider_name_per_tbr = Some ''X'', total_sent = Some 1000, total_repaid = Some 500,
      case_status = Some ''closed'', repaid = False,
      origination_date = DNull, repayment_date = DNull\<rparr>"

definition row_literal_pending :: fund_record where
  "row_literal_pending =
     \<lparr>provider_name_per_tbr = Some ''X'', total_sent = Some 500, total_repaid = Some 500,
      case_status = Some ''pending'', repaid = False,
      origination_date = DNull, repayment_date = DNull\<rparr>"

definition row_curve :: fund_record where
  "row_curve =
     \<lparr>provider_name_per_tbr = Some ''X'', total_sent = Some 100, total_repaid = Some 50,
      case_status = Some ''closed'', repaid = True,
      origination_date = DTime 0, repayment_date = DTime 25920000000\<rparr>"

definition row_bad_date :: fund_record where
  "row_bad_date =
     \<lparr>provider_name_per_tbr = Some ''X'', total_sent = Some 1000, total_repaid = Some 500,
      case_status = Some ''closed'', repaid = True,
      origination_date = DInvalid, repayment_date = DTime 25920000000\<rparr>"

definition acc_half :: analytics_acc where
  "acc_half =
     \<lparr>a_provider = ''X'', totalInvested = 1000, totalRecovered = 500, caseCount = 2,
      recoveryTimes = [], monthlyPerformance = []\<rparr>"

definition acc_two_thirds :: analytics_acc where
  "acc_two_thirds =
     \<lparr>a_provider = ''Y'', totalInvested = 1500, totalRecovered = 1000, caseCount = 2,
      recoveryTimes = [], monthlyPerformance = []\<rparr>"

section \<open>Rounding: whole numbers are exact\<close>

lemma round_even_of_int: "round_even (of_int k) = k"
  by (simp add: round_even_def)

lemma pow2_pos: "0 < pow2 e"
  by (simp add: pow2_def)

lemma double_round_exact:
  assumes "x / pow2 (max (binade x) (- 1022) - 52) = of_int k" and "\<bar>x\<bar> < pow2 1024"
  shows "double_round x = Fin x"
proof (cases "x = 0")
  case True
  then show ?thesis by (simp add: double_round_def)
next
  case False
  let ?q = "pow2 (max (binade x) (- 1022) - 52)"
  have q: "?q \<noteq> 0" using pow2_pos [of "max (binade x) (- 1022) - 52"] by simp
  have "round_even (x / ?q) = k" by (simp only: assms(1) round_even_of_int)
  moreover have "of_int k * ?q = x" using assms(1) q by (simp add: field_simps)
  ultimately have "of_int (round_even (x / ?q)) * ?q = x" by simp
  then show ?thesis using False assms(2) by (simp add: double_round_def Let_def)
qed

lemma binade_of_int:
  assumes "n \<noteq> 0"
  shows "binade (of_int n) = bitlen \<bar>n\<bar> - 1"
proof -
  have "1 \<le> \<bar>real_of_int n\<bar>" using assms by (simp flip: of_int_abs add: of_int_1_le_iff)
  moreover have "\<lfloor>\<bar>real_of_int n\<bar>\<rfloor> = \<bar>n\<bar>" by (simp flip: of_int_abs)
  ultimately show ?thesis by (simp add: binade_def)
qed

lemma double_round_of_int:
  assumes "\<bar>n\<bar> \<le> 2 ^ 53"
  shows "double_round (of_int n) = Fin (of_int n)"
proof (cases "n = 0")
  case True
  then show ?thesis by (simp add: double_round_def)
next
  case False
  then have pos: "0 < \<bar>n\<bar>" by simp
  define e where "e = bitlen \<bar>n\<bar> - 1"
  have e0: "0 \<le> e" using pos by (simp add: e_def bitlen_alt_def)
  from bitlen_bounds [OF pos] have lo: "2 ^ nat e \<le> \<bar>n\<bar>" by (simp add: e_def)
  with assms have "(2::int) ^ nat e \<le> 2 ^ 53" by simp
  then have "nat e \<le> 53" by (rule power_le_imp_le_exp [rotated]) simp
  then have e53: "e \<le> 53" by simp
  have bin: "max (binade (of_int n)) (- 1022) - 52 = e - 52"
    using e0 by (simp add: binade_of_int [OF False] e_def)
  have small: "\<bar>real_of_int n\<bar> < pow2 1024"
  proof -
    have "\<bar>real_of_int n\<bar> \<le> 2 ^ 53" using assms by (simp flip: of_int_abs add: of_int_le_numeral_power_cancel_iff)
    also have "\<dots> < pow2 1024" by (simp add: pow2_def)
    finally show ?thesis .
  qed
  have "\<exists>k. real_of_int n / pow2 (e - 52) = of_int k"
  proof (cases "e \<le> 52")
    case True
    then have "pow2 (e - 52) = 1 / 2 ^ nat (52 - e)"
      by (cases "e = 52") (simp_all add: pow2_def)
    then have "real_of_int n / pow2 (e - 52) = of_int (n * 2 ^ nat (52 - e))" by simp
    then show ?thesis ..
  next
    case False
    with e53 have e: "e = 53" by simp
    with lo assms have "\<bar>n\<bar> = 2 ^ 53" by simp
    then have "n = 2 ^ 53 \<or> n = - (2 ^ 53)" by linarith
    then have "real_of_int n / pow2 (e - 52) = of_int (n div 2)"
      by (auto simp: e pow2_def)
    then show ?thesis ..
  qed
  then obtain k where "real_of_int n / pow2 (max (binade (of_int n)) (- 1022) - 52) = of_int k"
    unfolding bin by blast
  then show ?thesis using small by (rule double_round_exact)
qed

lemma double_round_whole:
  assumes "x \<in> \<int>" and "\<bar>x\<bar> \<le> 2 ^ 53"
  shows "double_round x = Fin x"
proof -
  from assms(1) obtain n where x: "x = of_int n" by (auto elim: Ints_cases)
  with assms(2) have "\<bar>n\<bar> \<le> 2 ^ 53"
    by (simp flip: of_int_abs add: of_int_le_numeral_power_cancel_iff)
  then show ?thesis unfolding x by (rule double_round_of_int)
qed

lemma foldl_js_add_whole:
  assumes "a \<in> \<int>" and "list_all (\<lambda>x. x \<in> \<int>) xs"
    and "\<bar>a\<bar> + sum_list (map abs xs) \<le> 2 ^ 53"
  shows "foldl js_add (Fin a) (map Fin xs) = Fin (a + sum_list xs)"
  using assms
proof (induction xs arbitrary: a)
  case Nil
  show ?case by simp
next
  case (Cons x xs)
  have nonneg: "0 \<le> sum_list (map abs xs)" by (rule sum_list_nonneg) auto
  have "a + x \<in> \<int>" using Cons.prems by simp
  moreover have "\<bar>a + x\<bar> \<le> 2 ^ 53" using Cons.prems nonneg by simp
  ultimately have step: "double_round (a + x) = Fin (a + x)"
    by (rule double_round_whole)
  have "foldl js_add (Fin (a + x)) (map Fin xs) = Fin (a + x + sum_list xs)"
    using Cons.prems by (intro Cons.IH) auto
  then show ?case by (simp add: step add.assoc)
qed

lemma js_sum_whole:
  assumes "list_all (\<lambda>x. x \<in> \<int>) xs" and "sum_list (map abs xs) \<le> 2 ^ 53"
  shows "js_sum (map Fin xs) = Fin (sum_list xs)"
  using foldl_js_add_whole [of 0 xs] assms by (simp add: js_sum_def)

lemma decimal_amounts:
  "double_round (1 / 10) = Fin (3602879701896397 / 36028797018963968)"
  "double_round (2 / 10) = Fin (3602879701896397 / 18014398509481984)"
  "double_round (7 / 10) = Fin (3152519739159347 / 4503599627370496)"
  by (simp_all add: double_round_def binade_def pow2_def round_even_def Let_def compute_bitlen)

lemma rounding_steps:
  "double_round (3602879701896397 / 36028797018963968)
     = Fin (3602879701896397 / 36028797018963968)"
  "double_round (3602879701896397 / 18014398509481984)
     = Fin (3602879701896397 / 18014398509481984)"
  "double_round (16212958658533785 / 18014398509481984)
     = Fin (2026619832316723 / 2251799813685248)"
  "double_round (36028797018963965 / 36028797018963968)
     = Fin (9007199254740991 / 9007199254740992)"
  "double_round (10808639105689191 / 36028797018963968)
     = Fin (1351079888211149 / 4503599627370496)"
  "double_round 1 = Fin 1"
  by (simp_all add: double_round_def binade_def pow2_def round_even_def Let_def compute_bitlen)

lemma example_rounding_steps:
  "double_round 1 = Fin 1"
  "double_round 1000 = Fin 1000"
  "double_round 1500 = Fin 1500"
  "double_round 500 = Fin 500"
  "double_round (1 / 2) = Fin (1 / 2)"
  "double_round (3 / 2) = Fin (3 / 2)"
  "double_round (3 / 4) = Fin (3 / 4)"
  "double_round (2 / 3) = Fin (6004799503160661 / 9007199254740992)"
  "double_round (150119987579016525 / 2251799813685248) = Fin (2345624805922133 / 35184372088832)"
  by (simp_all add: double_round_def binade_def pow2_def round_even_def Let_def compute_bitlen)

section \<open>Grouping and totals: conservation\<close>

lemma sum_list_update:
  fixes f :: "'v \<Rightarrow> 'a::cancel_comm_monoid_add"
  shows "sum_list (map (\<lambda>x. f (snd x)) (AList.update k v m))
           + (case map_of m k of None \<Rightarrow> 0 | Some b \<Rightarrow> f b)
       = sum_list (map (\<lambda>x. f (snd x)) m) + f v"
  by (induction m) (auto simp: add_ac)

lemma provider_step_skip: "\<not> attributed r \<Longrightarrow> provider_step m r = m"
  by (auto simp: provider_step_def attributed_def truthy_text_def split: option.splits)

lemma provider_step_attributed:
  "attributed_to k r \<Longrightarrow> provider_step m r = AList.update k (add_record r (bucket_of m k)) m"
  by (auto simp: provider_step_def attributed_to_def attributed_def truthy_text_def
        bucket_of_def Let_def split: option.splits)

lemma attributed_cases: "attributed r \<Longrightarrow> \<exists>k. attributed_to k r"
  by (auto simp: attributed_to_def attributed_def truthy_text_def split: option.splits)

lemma sum_provider_step:
  fixes f :: "provider_bucket \<Rightarrow> 'a::cancel_comm_monoid_add"
  assumes new: "\<And>k. f (new_bucket k) = 0" and add: "\<And>p. f (add_record r p) = f p + g r"
  shows "sum_list (map (\<lambda>x. f (snd x)) (provider_step m r))
       = sum_list (map (\<lambda>x. f (snd x)) m) + (if attributed r then g r else 0)"
proof (cases "attributed r")
  case False
  then show ?thesis by (simp add: provider_step_skip)
next
  case True
  then obtain k where k: "attributed_to k r" using attributed_cases by blast
  have "sum_list (map (\<lambda>x. f (snd x)) (provider_step m r))
          + (case map_of m k of None \<Rightarrow> 0 | Some b \<Rightarrow> f b)
      = sum_list (map (\<lambda>x. f (snd x)) m) + f (add_record r (bucket_of m k))"
    by (simp add: provider_step_attributed [OF k] sum_list_update)
  also have "f (add_record r (bucket_of m k))
      = (case map_of m k of None \<Rightarrow> 0 | Some b \<Rightarrow> f b) + g r"
    by (simp add: add bucket_of_def new split: option.splits)
  finally have "(case map_of m k of None \<Rightarrow> 0 | Some b \<Rightarrow> f b)
          + sum_list (map (\<lambda>x. f (snd x)) (provider_step m r))
      = (case map_of m k of None \<Rightarrow> 0 | Some b \<Rightarrow> f b)
          + (sum_list (map (\<lambda>x. f (snd x)) m) + g r)"
    by (simp add: add_ac)
  then have "sum_list (map (\<lambda>x. f (snd x)) (provider_step m r))
      = sum_list (map (\<lambda>x. f (snd x)) m) + g r"
    by (simp only: add_left_cancel)
  then show ?thesis using True by simp
qed

lemma sum_foldl_provider_step:
  fixes f :: "provider_bucket \<Rightarrow> 'a::cancel_comm_monoid_add"
  assumes new: "\<And>k. f (new_bucket k) = 0" and add: "\<And>r p. f (add_record r p) = f p + g r"
  shows "sum_list (map (\<lambda>x. f (snd x)) (foldl provider_step m rs))
       = sum_list (map (\<lambda>x. f (snd x)) m) + sum_list (map g (filter attributed rs))"
proof (induction rs arbitrary: m)
  case Nil
  show ?case by simp
next
  case (Cons r rs)
  show ?case
    by (simp add: Cons.IH sum_provider_step [where f = f and g = g, OF new add] add_ac)
qed

lemma add_record_total_sent:
  "p_total_sent (add_record r p) = js_add (p_total_sent p) (Fin (or_zero (total_sent r)))"
  by (simp add: add_record_def Let_def split: option.splits)

lemma add_record_total_repaid:
  "p_total_repaid (add_record r p) = js_add (p_total_repaid p) (Fin (or_zero (total_repaid r)))"
  by (simp add: add_record_def Let_def split: option.splits)

lemma add_record_case_count: "p_case_count (add_record r p) = p_case_count p + 1"
  by (simp add: add_record_def Let_def split: option.splits)

lemma add_record_name: "p_provider_name_per_tbr (add_record r p) = p_provider_name_per_tbr p"
  by (simp add: add_record_def Let_def split: option.splits)

lemma add_record_pending_closed:
  "p_pending_cases (add_record r p)
     = p_pending_cases p + (if case_status r = Some ''Pending'' then 1 else 0)"
  "p_closed_cases (add_record r p)
     = p_closed_cases p + (if case_status r \<noteq> Some ''Pending'' \<and> repaid r then 1 else 0)"
  by (simp_all add: add_record_def Let_def split: option.splits)

lemma attributed_to_unique: "attributed_to k r \<Longrightarrow> attributed_to k' r \<Longrightarrow> k = k'"
  by (simp add: attributed_to_def)

lemma attributed_toD: "attributed_to k r \<Longrightarrow> attributed r"
  by (simp add: attributed_to_def)

lemma bucket_of_step:
  "bucket_of (provider_step m r) k
   = (if attributed_to k r then add_record r (bucket_of m k) else bucket_of m k)"
proof (cases "attributed r")
  case False
  then show ?thesis using attributed_toD by (auto simp: provider_step_skip)
next
  case True
  then obtain k' where k': "attributed_to k' r" using attributed_cases by blast
  show ?thesis
  proof (cases "k = k'")
    case True
    with k' show ?thesis
      by (simp add: provider_step_attributed [OF k'] bucket_of_def update_conv')
  next
    case False
    with k' have "\<not> attributed_to k r" using attributed_to_unique by blast
    with False show ?thesis
      by (simp add: provider_step_attributed [OF k'] bucket_of_def update_conv')
  qed
qed

lemma bucket_of_foldl:
  "bucket_of (foldl provider_step m rs) k
   = foldl (\<lambda>p r. add_record r p) (bucket_of m k) (filter (attributed_to k) rs)"
  by (induction rs arbitrary: m) (simp_all add: bucket_of_step)

lemma distinct_provider_step:
  "distinct (map fst m) \<Longrightarrow> distinct (map fst (provider_step m r))"
  by (cases "attributed r")
     (auto simp: provider_step_skip dest!: attributed_cases
           simp: provider_step_attributed intro: distinct_update)

lemma distinct_foldl_provider_step:
  "distinct (map fst m) \<Longrightarrow> distinct (map fst (foldl provider_step m rs))"
  by (induction rs arbitrary: m) (simp_all add: distinct_provider_step)

lemma keys_provider_step:
  "fst ` set (provider_step m r) = fst ` set m \<union> {k. attributed_to k r}"
proof (cases "attributed r")
  case False
  then show ?thesis using attributed_toD by (auto simp: provider_step_skip)
next
  case True
  then obtain k' where k': "attributed_to k' r" using attributed_cases by blast
  then have "{k. attributed_to k r} = {k'}" using attributed_to_unique by blast
  then show ?thesis
    by (simp add: provider_step_attributed [OF k'] dom_update)
qed

lemma keys_foldl_provider_step:
  "fst ` set (foldl provider_step m rs)
   = fst ` set m \<union> {k. \<exists>r \<in> set rs. attributed_to k r}"
  by (induction rs arbitrary: m) (auto simp: keys_provider_step)

lemma foldl_add_record_fields:
  "p_total_sent (foldl (\<lambda>p r. add_record r p) p0 xs)
     = foldl js_add (p_total_sent p0) (map (\<lambda>r. Fin (or_zero (total_sent r))) xs)"
  "p_total_repaid (foldl (\<lambda>p r. add_record r p) p0 xs)
     = foldl js_add (p_total_repaid p0) (map (\<lambda>r. Fin (or_zero (total_repaid r))) xs)"
  "p_case_count (foldl (\<lambda>p r. add_record r p) p0 xs) = p_case_count p0 + length xs"
  "p_pending_cases (foldl (\<lambda>p r. add_record r p) p0 xs)
     = p_pending_cases p0 + length (filter (\<lambda>r. case_status r = Some ''Pending'') xs)"
  "p_closed_cases (foldl (\<lambda>p r. add_record r p) p0 xs)
     = p_closed_cases p0
       + length (filter (\<lambda>r. case_status r \<noteq> Some ''Pending'' \<and> repaid r) xs)"
  "p_provider_name_per_tbr (foldl (\<lambda>p r. add_record r p) p0 xs) = p_provider_name_per_tbr p0"
  by (induction xs arbitrary: p0)
     (simp_all add: add_record_total_sent add_record_total_repaid add_record_case_count
        add_record_name add_record_pending_closed)

lemma providerMap_bucket:
  assumes "(k, b) \<in> set (providerMap_of rs)"
  shows "b = foldl (\<lambda>p r. add_record r p) (new_bucket k) (filter (attributed_to k) rs)"
proof -
  have "distinct (map fst (providerMap_of rs))"
    unfolding providerMap_of_def by (rule distinct_foldl_provider_step) simp
  with assms have "map_of (providerMap_of rs) k = Some b" by simp
  then have "bucket_of (providerMap_of rs) k = b" by (simp add: bucket_of_def)
  then show ?thesis
    by (simp add: providerMap_of_def bucket_of_foldl) (simp add: bucket_of_def)
qed

lemma fetchProviderData_elem:
  assumes "d \<in> set (fetchProviderData rs)"
  obtains k where "d = process_provider
      (foldl (\<lambda>p r. add_record r p) (new_bucket k) (filter (attributed_to k) rs))"
  using assms providerMap_bucket by (fastforce simp: fetchProviderData_def)

lemma bucket_fields:
  assumes "d \<in> set (fetchProviderData rs)"
  shows "pd_total_sent d
           = js_sum (map Fin (amounts_of total_sent (pd_provider_name_per_tbr d) rs))"
    and "pd_total_repaid d
           = js_sum (map Fin (amounts_of total_repaid (pd_provider_name_per_tbr d) rs))"
    and "pd_case_count d = length (filter (attributed_to (pd_provider_name_per_tbr d)) rs)"
    and "pd_pending_cases d
           = length (filter (\<lambda>r. case_status r = Some ''Pending'')
               (filter (attributed_to (pd_provider_name_per_tbr d)) rs))"
    and "pd_closed_cases d
           = length (filter (\<lambda>r. case_status r \<noteq> Some ''Pending'' \<and> repaid r)
               (filter (attributed_to (pd_provider_name_per_tbr d)) rs))"
    and "\<exists>r \<in> set rs. attributed_to (pd_provider_name_per_tbr d) r"
proof -
  from assms obtain k b where kb: "(k, b) \<in> set (providerMap_of rs)" and d: "d = process_provider b"
    by (auto simp: fetchProviderData_def)
  from providerMap_bucket [OF kb]
  have b: "b = foldl (\<lambda>p r. add_record r p) (new_bucket k) (filter (attributed_to k) rs)" .
  have k: "pd_provider_name_per_tbr d = k"
    by (simp add: d b process_provider_def foldl_add_record_fields new_bucket_def)
  show "pd_total_sent d
           = js_sum (map Fin (amounts_of total_sent (pd_provider_name_per_tbr d) rs))"
    unfolding k
    by (simp add: d b process_provider_def foldl_add_record_fields new_bucket_def js_sum_def
        amounts_of_def comp_def)
  show "pd_total_repaid d
           = js_sum (map Fin (amounts_of total_repaid (pd_provider_name_per_tbr d) rs))"
    unfolding k
    by (simp add: d b process_provider_def foldl_add_record_fields new_bucket_def js_sum_def
        amounts_of_def comp_def)
  show "pd_case_count d = length (filter (attributed_to (pd_provider_name_per_tbr d)) rs)"
    unfolding k by (simp add: d b process_provider_def foldl_add_record_fields new_bucket_def)
  show "pd_pending_cases d
           = length (filter (\<lambda>r. case_status r = Some ''Pending'')
               (filter (attributed_to (pd_provider_name_per_tbr d)) rs))"
    unfolding k by (simp add: d b process_provider_def foldl_add_record_fields new_bucket_def)
  show "pd_closed_cases d
           = length (filter (\<lambda>r. case_status r \<noteq> Some ''Pending'' \<and> repaid r)
               (filter (attributed_to (pd_provider_name_per_tbr d)) rs))"
    unfolding k by (simp add: d b process_provider_def foldl_add_record_fields new_bucket_def)
  from kb have "k \<in> fst ` set (foldl provider_step [] rs)"
    by (force simp: providerMap_of_def)
  then show "\<exists>r \<in> set rs. attributed_to (pd_provider_name_per_tbr d) r"
    unfolding k by (simp add: keys_foldl_provider_step)
qed

lemma provider_names:
  "map pd_provider_name_per_tbr (fetchProviderData rs) = map fst (providerMap_of rs)"
proof -
  have "p_provider_name_per_tbr (snd x) = fst x" if "x \<in> set (providerMap_of rs)" for x
  proof -
    from that have "(fst x, snd x) \<in> set (providerMap_of rs)" by simp
    from providerMap_bucket [OF this] have "p_provider_name_per_tbr (snd x)
        = p_provider_name_per_tbr (foldl (\<lambda>p r. add_record r p) (new_bucket (fst x))
            (filter (attributed_to (fst x)) rs))"
      by simp
    then show ?thesis by (simp add: foldl_add_record_fields new_bucket_def)
  qed
  then show ?thesis
    by (simp add: fetchProviderData_def process_provider_def)
qed

lemma distinct_provider_names:
  "distinct (map pd_provider_name_per_tbr (fetchProviderData rs))"
  unfolding provider_names providerMap_of_def
  by (rule distinct_foldl_provider_step) simp

lemma provider_names_cover:
  "set (map pd_provider_name_per_tbr (fetchProviderData rs))
   = {k. \<exists>r \<in> set rs. attributed_to k r}"
  unfolding provider_names providerMap_of_def
  by (simp add: keys_foldl_provider_step)

lemma case_counts_total:
  "sum_list (map pd_case_count (fetchProviderData rs)) = length (filter attributed rs)"
  using sum_foldl_provider_step [where f = p_case_count
      and g = "\<lambda>r. 1" and m = "[]" and rs = rs]
  by (simp add: fetchProviderData_def providerMap_of_def process_provider_def new_bucket_def
      add_record_case_count comp_def sum_list_triv)

lemma sum_list_absent_key:
  fixes c :: real
  shows "k0 \<notin> set ks \<Longrightarrow> sum_list (map (\<lambda>k. if k = k0 then c else 0) ks) = 0"
  by (induction ks) auto

lemma sum_list_single_key:
  fixes c :: real
  assumes "distinct ks" and "k0 \<in> set ks"
  shows "sum_list (map (\<lambda>k. if k = k0 then c else 0) ks) = c"
  using assms by (induction ks) (auto simp: sum_list_absent_key)

lemma sum_list_partition:
  fixes g :: "fund_record \<Rightarrow> real"
  assumes "distinct ks" and "\<And>r. r \<in> set rs \<Longrightarrow> attributed r \<Longrightarrow> \<exists>k \<in> set ks. attributed_to k r"
  shows "sum_list (map (\<lambda>k. sum_list (map g (filter (attributed_to k) rs))) ks)
       = sum_list (map g (filter attributed rs))"
  using assms(2)
proof (induction rs)
  case Nil
  show ?case by (simp add: sum_list_0)
next
  case (Cons r rs)
  have IH: "sum_list (map (\<lambda>k. sum_list (map g (filter (attributed_to k) rs))) ks)
       = sum_list (map g (filter attributed rs))"
    using Cons.prems by (intro Cons.IH) auto
  have split: "sum_list (map (\<lambda>k. sum_list (map g (filter (attributed_to k) (r # rs)))) ks)
      = sum_list (map (\<lambda>k. if attributed_to k r then g r else 0) ks)
        + sum_list (map (\<lambda>k. sum_list (map g (filter (attributed_to k) rs))) ks)"
    by (simp flip: sum_list_addf) (rule arg_cong [where f = sum_list], auto)
  have one: "sum_list (map (\<lambda>k. if attributed_to k r then g r else 0) ks)
      = (if attributed r then g r else 0)"
  proof (cases "attributed r")
    case False
    then have "\<And>k. \<not> attributed_to k r" by (simp add: attributed_to_def)
    then show ?thesis using False by (simp add: sum_list_0)
  next
    case True
    with Cons.prems obtain k0 where k0: "k0 \<in> set ks" "attributed_to k0 r" by auto
    then have "\<And>k. attributed_to k r = (k = k0)" using attributed_to_unique by blast
    then show ?thesis using True sum_list_single_key [OF assms(1) k0(1), of "g r"] by simp
  qed
  show ?case by (simp only: split one IH) simp
qed

lemma totals_of_fields:
  "t_invested (foldl (\<lambda>acc p. \<lparr>t_invested = js_add (t_invested acc) (pd_total_sent p),
                      t_repaid = js_add (t_repaid acc) (pd_total_repaid p),
                      t_cases = t_cases acc + pd_case_count p\<rparr>) acc0 ps)
     = foldl js_add (t_invested acc0) (map pd_total_sent ps)"
  "t_repaid (foldl (\<lambda>acc p. \<lparr>t_invested = js_add (t_invested acc) (pd_total_sent p),
                      t_repaid = js_add (t_repaid acc) (pd_total_repaid p),
                      t_cases = t_cases acc + pd_case_count p\<rparr>) acc0 ps)
     = foldl js_add (t_repaid acc0) (map pd_total_repaid ps)"
  "t_cases (foldl (\<lambda>acc p. \<lparr>t_invested = js_add (t_invested acc) (pd_total_sent p),
                      t_repaid = js_add (t_repaid acc) (pd_total_repaid p),
                      t_cases = t_cases acc + pd_case_count p\<rparr>) acc0 ps)
     = t_cases acc0 + sum_list (map pd_case_count ps)"
  by (induction ps arbitrary: acc0) simp_all

lemma totals_of_sums:
  "t_invested (totals_of ps) = js_sum (map pd_total_sent ps)"
  "t_repaid (totals_of ps) = js_sum (map pd_total_repaid ps)"
  "t_cases (totals_of ps) = sum_list (map pd_case_count ps)"
  by (simp_all add: totals_of_def totals_of_fields js_sum_def)

lemma sum_list_Ints: "list_all (\<lambda>x. x \<in> \<int>) xs \<Longrightarrow> sum_list xs \<in> \<int>"
  by (induction xs) auto

lemma sum_list_filter_mono:
  fixes h :: "'a \<Rightarrow> real"
  assumes "\<And>x. P x \<Longrightarrow> Q x" and "\<And>x. 0 \<le> h x"
  shows "sum_list (map h (filter P xs)) \<le> sum_list (map h (filter Q xs))"
proof (induction xs)
  case Nil
  show ?case by simp
next
  case (Cons x xs)
  then show ?case using assms(1) [of x] assms(2) [of x] by (auto intro: add_increasing)
qed

lemma whole_bucket:
  assumes "whole_amounts field rs"
  shows "list_all (\<lambda>x. x \<in> \<int>) (amounts_of field k rs)"
    and "sum_list (map abs (amounts_of field k rs))
         \<le> sum_list (map (\<lambda>r. \<bar>or_zero (field r)\<bar>) (filter attributed rs))"
    and "js_sum (map Fin (amounts_of field k rs)) = Fin (sum_list (amounts_of field k rs))"
proof -
  show ints: "list_all (\<lambda>x. x \<in> \<int>) (amounts_of field k rs)"
    using assms by (auto simp: whole_amounts_def amounts_of_def list_all_iff attributed_to_def)
  have "sum_list (map (\<lambda>r. \<bar>or_zero (field r)\<bar>) (filter (attributed_to k) rs))
      \<le> sum_list (map (\<lambda>r. \<bar>or_zero (field r)\<bar>) (filter attributed rs))"
    by (rule sum_list_filter_mono) (simp_all add: attributed_to_def)
  then show le: "sum_list (map abs (amounts_of field k rs))
         \<le> sum_list (map (\<lambda>r. \<bar>or_zero (field r)\<bar>) (filter attributed rs))"
    by (simp add: amounts_of_def comp_def)
  from le assms have "sum_list (map abs (amounts_of field k rs)) \<le> 2 ^ 53"
    by (simp add: whole_amounts_def)
  with ints show "js_sum (map Fin (amounts_of field k rs)) = Fin (sum_list (amounts_of field k rs))"
    by (rule js_sum_whole)
qed

lemma whole_total:
  assumes whole: "whole_amounts field rs" and "distinct ks"
    and cover: "\<And>r. r \<in> set rs \<Longrightarrow> attributed r \<Longrightarrow> \<exists>k \<in> set ks. attributed_to k r"
  shows "js_sum (map (\<lambda>k. js_sum (map Fin (amounts_of field k rs))) ks)
       = Fin (sum_list (map (\<lambda>r. or_zero (field r)) (filter attributed rs)))"
proof -
  let ?S = "\<lambda>k. sum_list (amounts_of field k rs)"
  have eq: "map (\<lambda>k. js_sum (map Fin (amounts_of field k rs))) ks = map Fin (map ?S ks)"
    by (simp add: whole_bucket(3) [OF whole])
  have ints: "list_all (\<lambda>x. x \<in> \<int>) (map ?S ks)"
    using whole_bucket(1) [OF whole] by (simp add: list_all_iff sum_list_Ints)
  have "sum_list (map abs (map ?S ks))
      \<le> sum_list (map (\<lambda>k. sum_list (map (\<lambda>r. \<bar>or_zero (field r)\<bar>) (filter (attributed_to k) rs))) ks)"
    unfolding map_map comp_def
  proof (rule sum_list_mono)
    fix k
    show "\<bar>sum_list (amounts_of field k rs)\<bar>
        \<le> sum_list (map (\<lambda>r. \<bar>or_zero (field r)\<bar>) (filter (attributed_to k) rs))"
      using sum_list_abs [of "amounts_of field k rs"] by (simp add: amounts_of_def comp_def)
  qed
  also have "\<dots> = sum_list (map (\<lambda>r. \<bar>or_zero (field r)\<bar>) (filter attributed rs))"
    using assms(2) cover by (rule sum_list_partition)
  also have "\<dots> \<le> 2 ^ 53" using whole by (simp add: whole_amounts_def)
  finally have "js_sum (map Fin (map ?S ks)) = Fin (sum_list (map ?S ks))"
    using ints by (intro js_sum_whole)
  also have "sum_list (map ?S ks) = sum_list (map (\<lambda>r. or_zero (field r)) (filter attributed rs))"
    unfolding amounts_of_def using assms(2) cover by (rule sum_list_partition)
  finally show ?thesis by (simp only: eq)
qed

lemma bucket_totals_as_map:
  "map pd_total_sent (fetchProviderData rs)
     = map (\<lambda>k. js_sum (map Fin (amounts_of total_sent k rs)))
         (map pd_provider_name_per_tbr (fetchProviderData rs))"
  "map pd_total_repaid (fetchProviderData rs)
     = map (\<lambda>k. js_sum (map Fin (amounts_of total_repaid k rs)))
         (map pd_provider_name_per_tbr (fetchProviderData rs))"
  by (simp_all add: bucket_fields)

lemma provider_names_attributed:
  assumes "r \<in> set rs" and "attributed r"
  shows "\<exists>k \<in> set (map pd_provider_name_per_tbr (fetchProviderData rs)). attributed_to k r"
proof -
  from assms(2) obtain k where "attributed_to k r" using attributed_cases by blast
  with assms(1) show ?thesis unfolding provider_names_cover by blast
qed

lemma whole_totals_invested:
  assumes "whole_amounts total_sent rs"
  shows "t_invested (totals_of (fetchProviderData rs))
       = Fin (sum_list (map (\<lambda>r. or_zero (total_sent r)) (filter attributed rs)))"
  unfolding totals_of_sums bucket_totals_as_map
  using assms distinct_provider_names provider_names_attributed
  by (rule whole_total)

lemma whole_totals_repaid:
  assumes "whole_amounts total_repaid rs"
  shows "t_repaid (totals_of (fetchProviderData rs))
       = Fin (sum_list (map (\<lambda>r. or_zero (total_repaid r)) (filter attributed rs)))"
  unfolding totals_of_sums bucket_totals_as_map
  using assms distinct_provider_names provider_names_attributed
  by (rule whole_total)

lemma rows_partition:
  fixes g :: "fund_record \<Rightarrow> real"
  shows "sum_list (map (\<lambda>d. sum_list (map g (filter (attributed_to (pd_provider_name_per_tbr d)) rs)))
           (fetchProviderData rs))
       = sum_list (map g (filter attributed rs))"
  using sum_list_partition [OF distinct_provider_names provider_names_attributed, of rs rs g]
  by (simp add: comp_def)

lemma single_provider:
  assumes "map pd_provider_name_per_tbr ds = [k]"
  obtains d where "ds = [d]" and "pd_provider_name_per_tbr d = k"
  using assms by (cases ds) auto

text \<open>
  Claim C1, as amended. The buckets have distinct providers and no row contributes to more
  than one bucket: the case counts add up to the number of rows with a provider, and each
  bucket holds the count and, as sums of the runtime taken in the order of the rows, the
  amounts sent and repaid of exactly the rows of its provider. The rows of the buckets
  together are the rows with a provider: their amounts, summed exactly over all buckets, are
  the amounts of those rows. Where no addition rounds, which is so when the amounts are whole
  numbers whose absolute values add up to at most \<open>2 ^ 53\<close>, each bucket total is the exact
  sum of its rows, and the total over all buckets that the page computes is the exact sum
  over the rows with a provider. A null or missing amount counts as 0.
\<close>

theorem aggregation_conserves_input:
  "distinct (map pd_provider_name_per_tbr (fetchProviderData rs))
   \<and> sum_list (map pd_case_count (fetchProviderData rs)) = length (filter attributed rs)
   \<and> (\<forall>d \<in> set (fetchProviderData rs).
        pd_total_sent d
          = js_sum (map Fin (amounts_of total_sent (pd_provider_name_per_tbr d) rs))
      \<and> pd_total_repaid d
          = js_sum (map Fin (amounts_of total_repaid (pd_provider_name_per_tbr d) rs))
      \<and> pd_case_count d = length (filter (attributed_to (pd_provider_name_per_tbr d)) rs))
   \<and> sum_list (map (\<lambda>d. sum_list (amounts_of total_sent (pd_provider_name_per_tbr d) rs))
         (fetchProviderData rs))
       = sum_list (map (\<lambda>r. or_zero (total_sent r)) (filter attributed rs))
   \<and> sum_list (map (\<lambda>d. sum_list (amounts_of total_repaid (pd_provider_name_per_tbr d) rs))
         (fetchProviderData rs))
       = sum_list (map (\<lambda>r. or_zero (total_repaid r)) (filter attributed rs))
   \<and> (whole_amounts total_sent rs \<longrightarrow>
        (\<forall>d \<in> set (fetchProviderData rs).
           pd_total_sent d
             = Fin (sum_list (amounts_of total_sent (pd_provider_name_per_tbr d) rs)))
        \<and> t_invested (totals_of (fetchProviderData rs))
            = Fin (sum_list (map (\<lambda>r. or_zero (total_sent r)) (filter attributed rs))))
   \<and> (whole_amounts total_repaid rs \<longrightarrow>
        (\<forall>d \<in> set (fetchProviderData rs).
           pd_total_repaid d
             = Fin (sum_list (amounts_of total_repaid (pd_provider_name_per_tbr d) rs)))
        \<and> t_repaid (totals_of (fetchProviderData rs))
            = Fin (sum_list (map (\<lambda>r. or_zero (total_repaid r)) (filter attributed rs))))"
proof (intro conjI ballI impI)
  show "distinct (map pd_provider_name_per_tbr (fetchProviderData rs))"
    by (rule distinct_provider_names)
  show "sum_list (map pd_case_count (fetchProviderData rs)) = length (filter attributed rs)"
    by (rule case_counts_total)
  show "sum_list (map (\<lambda>d. sum_list (amounts_of total_sent (pd_provider_name_per_tbr d) rs))
         (fetchProviderData rs))
       = sum_list (map (\<lambda>r. or_zero (total_sent r)) (filter attributed rs))"
    unfolding amounts_of_def by (rule rows_partition)
  show "sum_list (map (\<lambda>d. sum_list (amounts_of total_repaid (pd_provider_name_per_tbr d) rs))
         (fetchProviderData rs))
       = sum_list (map (\<lambda>r. or_zero (total_repaid r)) (filter attributed rs))"
    unfolding amounts_of_def by (rule rows_partition)
next
  fix d assume d: "d \<in> set (fetchProviderData rs)"
  show "pd_total_sent d
          = js_sum (map Fin (amounts_of total_sent (pd_provider_name_per_tbr d) rs))"
    using d by (rule bucket_fields)
  show "pd_total_repaid d
          = js_sum (map Fin (amounts_of total_repaid (pd_provider_name_per_tbr d) rs))"
    using d by (rule bucket_fields)
  show "pd_case_count d = length (filter (attributed_to (pd_provider_name_per_tbr d)) rs)"
    using d by (rule bucket_fields)
next
  fix d assume d: "d \<in> set (fetchProviderData rs)" and whole: "whole_amounts total_sent rs"
  show "pd_total_sent d = Fin (sum_list (amounts_of total_sent (pd_provider_name_per_tbr d) rs))"
    by (simp add: bucket_fields(1) [OF d] whole_bucket(3) [OF whole])
next
  assume "whole_amounts total_sent rs"
  then show "t_invested (totals_of (fetchProviderData rs))
            = Fin (sum_list (map (\<lambda>r. or_zero (total_sent r)) (filter attributed rs)))"
    by (rule whole_totals_invested)
next
  fix d assume d: "d \<in> set (fetchProviderData rs)" and whole: "whole_amounts total_repaid rs"
  show "pd_total_repaid d
      = Fin (sum_list (amounts_of total_repaid (pd_provider_name_per_tbr d) rs))"
    by (simp add: bucket_fields(2) [OF d] whole_bucket(3) [OF whole])
next
  assume "whole_amounts total_repaid rs"
  then show "t_repaid (totals_of (fetchProviderData rs))
            = Fin (sum_list (map (\<lambda>r. or_zero (total_repaid r)) (filter attributed rs)))"
    by (rule whole_totals_repaid)
qed

theorem aggregation_conserves_input_witness:
  "whole_amounts total_sent [row_closed, row_unattributed, row_pending]
   \<and> map pd_provider_name_per_tbr (fetchProviderData [row_closed, row_unattributed, row_pending])
       = [''X'']
   \<and> map pd_total_sent (fetchProviderData [row_closed, row_unattributed, row_pending])
       = [Fin 1500]
   \<and> map pd_case_count (fetchProviderData [row_closed, row_unattributed, row_pending]) = [2]
   \<and> t_invested (totals_of (fetchProviderData [row_closed, row_unattributed, row_pending]))
       = Fin 1500"
proof -
  let ?rows = "[row_closed, row_unattributed, row_pending]"
  have rows: "filter attributed ?rows = [row_closed, row_pending]"
    by (simp add: attributed_def truthy_text_def row_closed_def row_pending_def
        row_unattributed_def)
  have whole: "whole_amounts total_sent ?rows"
    unfolding whole_amounts_def rows
    by (simp add: or_zero_def truthy_num_def row_closed_def row_pending_def)
  have names: "map pd_provider_name_per_tbr (fetchProviderData ?rows) = [''X'']"
    by (simp add: provider_names providerMap_of_def provider_step_def row_closed_def
        row_pending_def row_unattributed_def Let_def)
  then obtain d where d: "fetchProviderData ?rows = [d]"
      and k: "pd_provider_name_per_tbr d = ''X''"
    by (rule single_provider)
  have amounts: "amounts_of total_sent ''X'' ?rows = [1000, 500]"
    by (simp add: amounts_of_def attributed_to_def attributed_def truthy_text_def or_zero_def
        truthy_num_def row_closed_def row_pending_def row_unattributed_def)
  have count: "length (filter (attributed_to ''X'') ?rows) = 2"
    by (simp add: attributed_to_def attributed_def truthy_text_def row_closed_def
        row_pending_def row_unattributed_def)
  note all = aggregation_conserves_input [of ?rows]
  from all whole have "\<forall>d \<in> set (fetchProviderData ?rows).
      pd_total_sent d = Fin (sum_list (amounts_of total_sent (pd_provider_name_per_tbr d) ?rows))"
    by blast
  then have sent: "pd_total_sent d = Fin 1500"
    by (simp add: d k amounts)
  from all have "\<forall>d \<in> set (fetchProviderData ?rows).
      pd_case_count d = length (filter (attributed_to (pd_provider_name_per_tbr d)) ?rows)"
    by blast
  then have cases: "pd_case_count d = 2"
    by (simp only: d k count list.set ball_simps)
  from all whole have "t_invested (totals_of (fetchProviderData ?rows))
      = Fin (sum_list (map (\<lambda>r. or_zero (total_sent r)) (filter attributed ?rows)))"
    by blast
  then have total: "t_invested (totals_of (fetchProviderData ?rows)) = Fin 1500"
    unfolding rows by (simp add: or_zero_def truthy_num_def row_closed_def row_pending_def)
  have "pd_total_sent d = Fin 1500 \<and> pd_case_count d = 2
      \<and> t_invested (totals_of [d]) = Fin 1500"
    using sent cases total by (simp add: d)
  then show ?thesis using whole names by (simp add: d)
qed

lemma rows_rounding_attributed: "filter attributed rows_rounding = rows_rounding"
  by (simp add: rows_rounding_def attributed_def truthy_text_def row_tenth_def row_fifth_def
      row_seven_tenths_def)

lemma rows_rounding_buckets:
  "map pd_total_sent (fetchProviderData rows_rounding)
     = [Fin (3602879701896397 / 36028797018963968), Fin (2026619832316723 / 2251799813685248)]"
  by (simp add: rows_rounding_def fetchProviderData_def providerMap_of_def provider_step_def
      add_record_def new_bucket_def process_provider_def or_zero_def truthy_num_def Let_def
      row_tenth_def row_fifth_def row_seven_tenths_def rounding_steps)

text \<open>
  Claim C1 as stated fails, because the sums of the runtime round: for three rows with the
  amounts 0.1 (provider A), 0.2 and 0.7 (provider B) the bucket totals are 0.1 and
  0.8999999999999999 and add up to 0.9999999999999999 in the runtime and to
  \<open>1 - 3 / 2 ^ 55\<close> exactly, while the amounts of the rows add up to 1 in the runtime and to
  \<open>1 - 1 / 2 ^ 55\<close> exactly.
\<close>

theorem rounding_counterexample:
  "map pd_total_sent (fetchProviderData rows_rounding)
     = [Fin (3602879701896397 / 36028797018963968), Fin (2026619832316723 / 2251799813685248)]
   \<and> t_invested (totals_of (fetchProviderData rows_rounding))
       = Fin (9007199254740991 / 9007199254740992)
   \<and> sum_list (map finite_value (map pd_total_sent (fetchProviderData rows_rounding)))
       = 36028797018963965 / 36028797018963968
   \<and> js_sum (map (\<lambda>r. Fin (or_zero (total_sent r))) (filter attributed rows_rounding)) = Fin 1
   \<and> sum_list (map (\<lambda>r. or_zero (total_sent r)) (filter attributed rows_rounding))
       = 36028797018963967 / 36028797018963968
   \<and> t_invested (totals_of (fetchProviderData rows_rounding))
       \<noteq> js_sum (map (\<lambda>r. Fin (or_zero (total_sent r))) (filter attributed rows_rounding))
   \<and> t_invested (totals_of (fetchProviderData rows_rounding))
       \<noteq> Fin (sum_list (map (\<lambda>r. or_zero (total_sent r)) (filter attributed rows_rounding)))
   \<and> sum_list (map finite_value (map pd_total_sent (fetchProviderData rows_rounding)))
       \<noteq> sum_list (map (\<lambda>r. or_zero (total_sent r)) (filter attributed rows_rounding))"
proof -
  have js_rows: "js_sum (map (\<lambda>r. Fin (or_zero (total_sent r))) rows_rounding) = Fin 1"
    by (simp add: rows_rounding_def js_sum_def or_zero_def truthy_num_def row_tenth_def
        row_fifth_def row_seven_tenths_def rounding_steps)
  have exact_rows: "sum_list (map (\<lambda>r. or_zero (total_sent r)) rows_rounding)
      = 36028797018963967 / 36028797018963968"
    by (simp add: rows_rounding_def or_zero_def truthy_num_def row_tenth_def row_fifth_def
        row_seven_tenths_def)
  have totals: "t_invested (totals_of (fetchProviderData rows_rounding))
      = Fin (9007199254740991 / 9007199254740992)"
    by (simp add: totals_of_sums rows_rounding_buckets js_sum_def rounding_steps)
  have exact_buckets:
    "sum_list (map finite_value (map pd_total_sent (fetchProviderData rows_rounding)))
       = 36028797018963965 / 36028797018963968"
    by (simp add: rows_rounding_buckets finite_value_def)
  show ?thesis
    unfolding rows_rounding_attributed
    by (simp add: rows_rounding_buckets js_rows exact_rows totals finite_value_def)
qed

section \<open>Grouping and totals: the counters\<close>

text \<open>
  Claim C5, as amended. Two rows of provider X, the first with 1000 sent, 500 repaid, a
  status other than Pending and the flag \<^verbatim>\<open>repaid\<close> set, the second with 500 sent, 500 repaid
  and the status Pending, give one bucket with total_sent 1500, total_repaid 1000,
  case_count 2, pending_cases 1 and closed_cases 1. Its recovery rate is the percentage
  66.66666666666666, which is 66.7 to one decimal (0.667 as a fraction). A row increments
  pending_cases when its status is the text Pending, and else closed_cases when its flag
  \<^verbatim>\<open>repaid\<close> is set; no status text closed is looked at.
\<close>

theorem example_two_records:
  assumes r1: "provider_name_per_tbr r1 = Some ''X''" "total_sent r1 = Some 1000"
      "total_repaid r1 = Some 500" "case_status r1 \<noteq> Some ''Pending''" "repaid r1"
    and r2: "provider_name_per_tbr r2 = Some ''X''" "total_sent r2 = Some 500"
      "total_repaid r2 = Some 500" "case_status r2 = Some ''Pending''"
  shows "fetchProviderData [r1, r2] =
          [\<lparr>pd_provider_name_per_tbr = ''X'', pd_total_sent = Fin 1500,
            pd_total_repaid = Fin 1000, pd_case_count = 2, pd_avg_multiple = Fin (3 / 4),
            pd_pending_cases = 1, pd_closed_cases = 1,
            pd_recovery_rate = Fin (2345624805922133 / 35184372088832)\<rparr>]
        \<and> map (\<lambda>d. round (finite_value (pd_recovery_rate d) * 10)) (fetchProviderData [r1, r2])
            = [667]
        \<and> (\<forall>r p. p_pending_cases (add_record r p)
               = p_pending_cases p + (if case_status r = Some ''Pending'' then 1 else 0)
             \<and> p_closed_cases (add_record r p)
               = p_closed_cases p
                 + (if case_status r \<noteq> Some ''Pending'' \<and> repaid r then 1 else 0))"
proof -
  have out: "fetchProviderData [r1, r2] =
          [\<lparr>pd_provider_name_per_tbr = ''X'', pd_total_sent = Fin 1500,
            pd_total_repaid = Fin 1000, pd_case_count = 2, pd_avg_multiple = Fin (3 / 4),
            pd_pending_cases = 1, pd_closed_cases = 1,
            pd_recovery_rate = Fin (2345624805922133 / 35184372088832)\<rparr>]"
    using r1 r2
    by (simp add: fetchProviderData_def providerMap_of_def provider_step_def add_record_def
        new_bucket_def process_provider_def or_zero_def truthy_num_def Let_def
        example_rounding_steps)
  have "round (2345624805922133 / 35184372088832 * 10 :: real) = 667"
    unfolding round_def by (simp add: floor_eq_iff)
  then have rate: "map (\<lambda>d. round (finite_value (pd_recovery_rate d) * 10))
      (fetchProviderData [r1, r2]) = [667]"
    by (simp add: out finite_value_def)
  show ?thesis
    using out rate by (simp add: add_record_pending_closed)
qed

theorem example_two_records_witness:
  "provider_name_per_tbr row_closed = Some ''X'' \<and> repaid row_closed
   \<and> case_status row_closed \<noteq> Some ''Pending''
   \<and> case_status row_pending = Some ''Pending''
   \<and> map pd_total_sent (fetchProviderData [row_closed, row_pending]) = [Fin 1500]
   \<and> map pd_total_repaid (fetchProviderData [row_closed, row_pending]) = [Fin 1000]
   \<and> map pd_case_count (fetchProviderData [row_closed, row_pending]) = [2]
   \<and> map pd_pending_cases (fetchProviderData [row_closed, row_pending]) = [1]
   \<and> map pd_closed_cases (fetchProviderData [row_closed, row_pending]) = [1]"
  using example_two_records [of row_closed row_pending]
  by (simp add: row_closed_def row_pending_def)

text \<open>
  Claim C5 as stated fails: for the two rows with the status texts closed and pending and
  without the flag \<^verbatim>\<open>repaid\<close> the totals and the case count are as stated, but pending_cases
  and closed_cases are both 0, and the recovery rate is a percentage.
\<close>

theorem literal_example_counterexample:
  "map (\<lambda>d. (pd_total_sent d, pd_total_repaid d, pd_case_count d))
     (fetchProviderData [row_literal_closed, row_literal_pending]) = [(Fin 1500, Fin 1000, 2)]
   \<and> map pd_pending_cases (fetchProviderData [row_literal_closed, row_literal_pending]) = [0]
   \<and> map pd_closed_cases (fetchProviderData [row_literal_closed, row_literal_pending]) = [0]
   \<and> map pd_pending_cases (fetchProviderData [row_literal_closed, row_literal_pending]) \<noteq> [1]
   \<and> map pd_closed_cases (fetchProviderData [row_literal_closed, row_literal_pending]) \<noteq> [1]
   \<and> map pd_recovery_rate (fetchProviderData [row_literal_closed, row_literal_pending])
       = [Fin (2345624805922133 / 35184372088832)]"
  by (simp add: fetchProviderData_def providerMap_of_def provider_step_def add_record_def
      new_bucket_def process_provider_def or_zero_def truthy_num_def Let_def
      row_literal_closed_def row_literal_pending_def example_rounding_steps)

lemma disjoint_filters_length:
  "length (filter P xs) + length (filter (\<lambda>x. \<not> P x \<and> Q x) xs) \<le> length xs"
  by (induction xs) auto

text \<open>
  Claim C10. In every bucket the pending and the closed cases together are at most the case
  count. Every row with a provider increments the case count of the bucket of its provider
  exactly once and at most one of that bucket's two counters (pending_cases when its status
  is Pending, else closed_cases when it is marked repaid) and leaves every other bucket as it
  is; a row without provider changes nothing. So the three counters of a bucket are the
  numbers of the rows of its provider, of those that are pending, and of those that are not
  pending and marked repaid.
\<close>

theorem counters_bounded:
  "(\<forall>d \<in> set (fetchProviderData rs).
       pd_pending_cases d + pd_closed_cases d \<le> pd_case_count d
     \<and> pd_case_count d = length (filter (attributed_to (pd_provider_name_per_tbr d)) rs)
     \<and> pd_pending_cases d
         = length (filter (\<lambda>r. attributed_to (pd_provider_name_per_tbr d) r
                              \<and> case_status r = Some ''Pending'') rs)
     \<and> pd_closed_cases d
         = length (filter (\<lambda>r. attributed_to (pd_provider_name_per_tbr d) r
                              \<and> case_status r \<noteq> Some ''Pending'' \<and> repaid r) rs))
   \<and> (\<forall>r p. p_case_count (add_record r p) = p_case_count p + 1
          \<and> p_pending_cases (add_record r p)
              = p_pending_cases p + (if case_status r = Some ''Pending'' then 1 else 0)
          \<and> p_closed_cases (add_record r p)
              = p_closed_cases p
                + (if case_status r \<noteq> Some ''Pending'' \<and> repaid r then 1 else 0))
   \<and> (\<forall>m r k. attributed_to k r \<longrightarrow>
          map_of (provider_step m r) k = Some (add_record r (bucket_of m k))
          \<and> (\<forall>k'. k' \<noteq> k \<longrightarrow> map_of (provider_step m r) k' = map_of m k'))
   \<and> (\<forall>m r. \<not> attributed r \<longrightarrow> provider_step m r = m)"
proof (intro conjI ballI allI impI)
  fix d assume d: "d \<in> set (fetchProviderData rs)"
  let ?k = "pd_provider_name_per_tbr d"
  show count: "pd_case_count d = length (filter (attributed_to ?k) rs)"
    using d by (rule bucket_fields)
  show pending: "pd_pending_cases d
         = length (filter (\<lambda>r. attributed_to ?k r \<and> case_status r = Some ''Pending'') rs)"
    by (simp add: bucket_fields(4) [OF d] conj_commute)
  show closed: "pd_closed_cases d
         = length (filter (\<lambda>r. attributed_to ?k r
                              \<and> case_status r \<noteq> Some ''Pending'' \<and> repaid r) rs)"
    by (simp add: bucket_fields(5) [OF d] conj_commute conj_left_commute)
  have "length (filter (\<lambda>r. case_status r = Some ''Pending'') (filter (attributed_to ?k) rs))
      + length (filter (\<lambda>r. case_status r \<noteq> Some ''Pending'' \<and> repaid r)
          (filter (attributed_to ?k) rs))
      \<le> length (filter (attributed_to ?k) rs)"
    by (rule disjoint_filters_length)
  then show "pd_pending_cases d + pd_closed_cases d \<le> pd_case_count d"
    by (simp add: bucket_fields [OF d])
next
  fix m :: "(string \<times> provider_bucket) list" and r :: fund_record and k k'
  assume k: "attributed_to k r"
  show "map_of (provider_step m r) k = Some (add_record r (bucket_of m k))"
    by (simp add: provider_step_attributed [OF k] update_conv')
  assume "k' \<noteq> k"
  then show "map_of (provider_step m r) k' = map_of m k'"
    by (simp add: provider_step_attributed [OF k] update_conv')
qed (simp_all add: add_record_case_count add_record_pending_closed provider_step_skip)

theorem counters_bounded_witness:
  "map pd_provider_name_per_tbr (fetchProviderData [row_closed, row_pending]) = [''X'']
   \<and> map (\<lambda>d. (pd_case_count d, pd_pending_cases d, pd_closed_cases d))
       (fetchProviderData [row_closed, row_pending]) = [(2, 1, 1)]"
proof -
  have names: "map pd_provider_name_per_tbr (fetchProviderData [row_closed, row_pending]) = [''X'']"
    by (simp add: provider_names providerMap_of_def provider_step_def row_closed_def
        row_pending_def Let_def)
  then obtain d where d: "fetchProviderData [row_closed, row_pending] = [d]"
      and k: "pd_provider_name_per_tbr d = ''X''"
    by (rule single_provider)
  from counters_bounded [of "[row_closed, row_pending]"]
  have "pd_case_count d = length (filter (attributed_to ''X'') [row_closed, row_pending])
      \<and> pd_pending_cases d
          = length (filter (\<lambda>r. attributed_to ''X'' r \<and> case_status r = Some ''Pending'')
              [row_closed, row_pending])
      \<and> pd_closed_cases d
          = length (filter (\<lambda>r. attributed_to ''X'' r \<and> case_status r \<noteq> Some ''Pending''
                                \<and> repaid r) [row_closed, row_pending])"
    by (simp add: d k)
  then have "pd_case_count d = 2 \<and> pd_pending_cases d = 1 \<and> pd_closed_cases d = 1"
    by (simp add: attributed_to_def attributed_def truthy_text_def row_closed_def
        row_pending_def)
  then show ?thesis using names by (simp add: d)
qed

section \<open>Scores and grades\<close>

lemma riskScore_calc_clamp: "riskScore_calc r d = spec_riskScore r d"
  by (simp add: riskScore_calc_def spec_riskScore_def spec_clamp_def max_def min_def)

text \<open>
  Claim C2. Without recovery durations the average recovery time is the default 365, and the
  risk score is clamp(0, 100, (1 - recoveryRate) * 50 + min(365 / 365, 1) * 50), where the
  recovery rate is the total repaid over the total sent when the total sent is positive and 0
  otherwise. The score is a function of the two totals alone.
\<close>

theorem risk_score_default:
  assumes "recoveryTimes a = []"
  shows "avgRecoveryTime_of a = Some 365
       \<and> riskScore_of a
           = Some (spec_riskScore (spec_recoveryRate (totalRecovered a) (totalInvested a)) 365)
       \<and> (\<forall>a'. recoveryTimes a' = [] \<and> totalInvested a' = totalInvested a
               \<and> totalRecovered a' = totalRecovered a
             \<longrightarrow> riskScore_of a' = riskScore_of a)"
  using assms
  by (simp add: avgRecoveryTime_of_def riskScore_of_def riskScore_calc_clamp recoveryRate_of_def
      spec_recoveryRate_def)

theorem risk_score_default_witness:
  "recoveryTimes acc_two_thirds = []
   \<and> avgRecoveryTime_of acc_two_thirds = Some 365
   \<and> riskScore_of acc_two_thirds = Some (200 / 3)"
  using risk_score_default [of acc_two_thirds]
  by (simp add: acc_two_thirds_def spec_riskScore_def spec_recoveryRate_def spec_clamp_def)

text \<open>
  Claim C3. The grade is a function of the performance score with six bands, closed below
  and open above, tried from the top: 90 gives A, 89.999 gives B, 50 gives E, 49.999 gives F;
  at least 90 is A, at least 80 is B, at least 70 is C, at least 60 is D, at least 50 is E,
  anything else F. The grade of the output is that function of the performance score of the
  output (F when the score is no number).
\<close>

theorem grade_bands:
  "investmentGrade_calc 90 = ''A'' \<and> investmentGrade_calc 89.999 = ''B''
   \<and> investmentGrade_calc 50 = ''E'' \<and> investmentGrade_calc 49.999 = ''F''
   \<and> (\<forall>s. (investmentGrade_calc s = ''A'') = (90 \<le> s)
         \<and> (investmentGrade_calc s = ''B'') = (80 \<le> s \<and> s < 90)
         \<and> (investmentGrade_calc s = ''C'') = (70 \<le> s \<and> s < 80)
         \<and> (investmentGrade_calc s = ''D'') = (60 \<le> s \<and> s < 70)
         \<and> (investmentGrade_calc s = ''E'') = (50 \<le> s \<and> s < 60)
         \<and> (investmentGrade_calc s = ''F'') = (s < 50))
   \<and> (\<forall>a. ad_investmentGrade (process_analytics a)
          = (case ad_performanceScore (process_analytics a) of
               None \<Rightarrow> ''F''
             | Some s \<Rightarrow> investmentGrade_calc s))"
  by (simp add: investmentGrade_calc_def process_analytics_def investmentGrade_of_def)

lemma riskScore_calc_antimono: "r1 \<le> r2 \<Longrightarrow> riskScore_calc r2 d \<le> riskScore_calc r1 d"
  by (simp add: riskScore_calc_def max_def min_def)

lemma performanceScore_calc_mono:
  assumes "r1 \<le> r2"
  shows "performanceScore_calc r1 n (riskScore_calc r1 d)
       \<le> performanceScore_calc r2 n (riskScore_calc r2 d)"
proof -
  have "riskScore_calc r2 d \<le> riskScore_calc r1 d"
    using assms by (rule riskScore_calc_antimono)
  then have "r1 * 40 + min (real n / 10) 1 * 20 + (1 - riskScore_calc r1 d / 100) * 40
      \<le> r2 * 40 + min (real n / 10) 1 * 20 + (1 - riskScore_calc r2 d / 100) * 40"
    using assms by simp
  then show ?thesis
    unfolding performanceScore_calc_def by (rule min.mono [OF order_refl])
qed

text \<open>
  Claim C4. With the average recovery time (a number) and the case count fixed, the
  performance score min(100, rate * 40 + min(cases / 10, 1) * 20 + (1 - risk / 100) * 40)
  does not decrease when the recovery rate grows, the risk score inside it being recomputed
  from the recovery rate; and this is the performance score the code gives an accumulator
  with that recovery rate, case count and average recovery time.
\<close>

theorem performance_monotone:
  assumes "r1 \<le> r2"
  shows "performanceScore_calc r1 n (riskScore_calc r1 d)
           \<le> performanceScore_calc r2 n (riskScore_calc r2 d)
       \<and> (\<forall>a1 a2. recoveryRate_of a1 = r1 \<and> recoveryRate_of a2 = r2
              \<and> caseCount a1 = n \<and> caseCount a2 = n
              \<and> avgRecoveryTime_of a1 = Some d \<and> avgRecoveryTime_of a2 = Some d
            \<longrightarrow> performanceScore_of a1 = Some (performanceScore_calc r1 n (riskScore_calc r1 d))
              \<and> performanceScore_of a2 = Some (performanceScore_calc r2 n (riskScore_calc r2 d)))"
  using performanceScore_calc_mono [OF assms, of n d]
  by (simp add: performanceScore_of_def riskScore_of_def)

theorem performance_monotone_witness:
  "(1 / 2 :: real) \<le> 2 / 3
   \<and> recoveryRate_of acc_half = 1 / 2 \<and> recoveryRate_of acc_two_thirds = 2 / 3
   \<and> performanceScore_of acc_half = Some 34 \<and> performanceScore_of acc_two_thirds = Some 44
   \<and> performanceScore_calc (1 / 2) 2 (riskScore_calc (1 / 2) 365)
       \<le> performanceScore_calc (2 / 3) 2 (riskScore_calc (2 / 3) 365)"
proof -
  have le: "(1 / 2 :: real) \<le> 2 / 3" by simp
  have vals: "recoveryRate_of acc_half = 1 / 2 \<and> recoveryRate_of acc_two_thirds = 2 / 3
      \<and> performanceScore_of acc_half = Some 34 \<and> performanceScore_of acc_two_thirds = Some 44"
    by (simp add: acc_half_def acc_two_thirds_def recoveryRate_of_def avgRecoveryTime_of_def
        performanceScore_of_def riskScore_of_def performanceScore_calc_def riskScore_calc_def)
  from performance_monotone [OF le, of 2 365] le vals show ?thesis by blast
qed

section \<open>Collection curves\<close>

lemma month_step_bucket:
  "map_of (month_step r ms curve m) m =
     Some (let d0 = (case map_of curve m of
                       None \<Rightarrow> \<lparr>c_totalInvested = 0, c_totalRecovered = 0, c_caseCount = 0\<rparr>
                     | Some d \<Rightarrow> d)
           in \<lparr>c_totalInvested = c_totalInvested d0 + or_zero (total_sent r),
               c_totalRecovered = c_totalRecovered d0
                 + (if 0 < ms then or_zero (total_repaid r) * min (real m / real_of_int ms) 1 else 0),
               c_caseCount = c_caseCount d0 + 1\<rparr>)"
  by (simp add: month_step_def Let_def update_conv' or_zero_def)

lemma progress_in_range:
  "0 < ms \<Longrightarrow> int m \<le> ms \<Longrightarrow> min (real m / real_of_int ms) 1 = real m / real_of_int ms"
  by (simp add: min_def)

lemma months_eleven: "[0..<11] = [0, 1, 2, 3, 4, 5, 6, 7, 8, 9, 10::nat]"
  by (simp add: upt_rec)

text \<open>
  Claim C6. One case with 100 sent, 50 repaid and 10 elapsed months gives the recovery rates
  0 at month 0, 25 at month 5 and 50 at month 10 (percent; 5 times the month throughout).
  For a row with a positive number of elapsed months, every month up to that number adds the
  amount sent to the invested total of the month once and the amount repaid times month over
  elapsed months to its recovered total.
\<close>

theorem curve_of_single_case:
  assumes "provider_name_per_tbr r = Some p" "p \<noteq> []"
    and "total_sent r = Some 100" "total_repaid r = Some 50"
    and "monthsSince_of now r = Some 10"
  shows "map (\<lambda>c. (cd_month c, cd_recoveryRate c)) (fetchCurveData now [r])
         = [(0, 0), (1, 5), (2, 10), (3, 15), (4, 20), (5, 25), (6, 30), (7, 35), (8, 40),
            (9, 45), (10, 50)]
       \<and> (\<forall>r' ms m curve. 0 < ms \<and> int m \<le> ms \<longrightarrow>
             map_of (month_step r' ms curve m) m =
               Some (let d0 = (case map_of curve m of
                                 None \<Rightarrow> \<lparr>c_totalInvested = 0, c_totalRecovered = 0,
                                           c_caseCount = 0\<rparr>
                               | Some d \<Rightarrow> d)
                     in \<lparr>c_totalInvested = c_totalInvested d0 + or_zero (total_sent r'),
                         c_totalRecovered = c_totalRecovered d0
                           + or_zero (total_repaid r') * (real m / real_of_int ms),
                         c_caseCount = c_caseCount d0 + 1\<rparr>))"
proof (intro conjI allI impI)
  show "map (\<lambda>c. (cd_month c, cd_recoveryRate c)) (fetchCurveData now [r])
         = [(0, 0), (1, 5), (2, 10), (3, 15), (4, 20), (5, 25), (6, 30), (7, 35), (8, 40),
            (9, 45), (10, 50)]"
    using assms
    by (simp add: fetchCurveData_def curveMap_of_def curve_step_def months_loop_def
        months_eleven month_step_def curves_of_def month_rate_def or_zero_def truthy_num_def
        Let_def)
next
  fix r' :: fund_record and ms :: int and m :: nat and curve :: "(nat \<times> curve_month) list"
  assume "0 < ms \<and> int m \<le> ms"
  then show "map_of (month_step r' ms curve m) m =
               Some (let d0 = (case map_of curve m of
                                 None \<Rightarrow> \<lparr>c_totalInvested = 0, c_totalRecovered = 0,
                                           c_caseCount = 0\<rparr>
                               | Some d \<Rightarrow> d)
                     in \<lparr>c_totalInvested = c_totalInvested d0 + or_zero (total_sent r'),
                         c_totalRecovered = c_totalRecovered d0
                           + or_zero (total_repaid r') * (real m / real_of_int ms),
                         c_caseCount = c_caseCount d0 + 1\<rparr>)"
    by (simp add: month_step_bucket progress_in_range)
qed

theorem curve_of_single_case_witness:
  "monthsSince_of 0 row_curve = Some 10
   \<and> map (\<lambda>c. (cd_month c, cd_recoveryRate c)) (fetchCurveData 0 [row_curve])
       = [(0, 0), (1, 5), (2, 10), (3, 15), (4, 20), (5, 25), (6, 30), (7, 35), (8, 40),
          (9, 45), (10, 50)]"
proof -
  have ms: "monthsSince_of 0 row_curve = Some 10"
    by (simp add: monthsSince_of_def row_curve_def)
  from curve_of_single_case [OF _ _ _ _ ms, of "''X''"] show ?thesis
    using ms by (simp add: row_curve_def)
qed

lemma set_update_subset: "set (AList.update k v al) \<subseteq> insert (k, v) (set al)"
  by (induction al) auto

lemma month_step_keys:
  assumes "map fst c = [0..<length c]" and "m \<le> length c"
  shows "map fst (month_step r ms c m) = [0..<max (length c) (Suc m)]"
proof (cases "m < length c")
  case True
  then have "m \<in> set (map fst c)" by (simp add: assms(1))
  then have same: "map fst (month_step r ms c m) = map fst c"
    by (simp add: month_step_def Let_def update_keys)
  from True have mx: "max (length c) (Suc m) = length c" by simp
  show ?thesis unfolding same mx by (rule assms(1))
next
  case False
  with assms(2) have m: "m = length c" by simp
  then have "m \<notin> set (map fst c)" by (simp add: assms(1))
  then have "map fst (month_step r ms c m) = map fst c @ [m]"
    by (simp add: month_step_def Let_def update_keys)
  then show ?thesis using m by (simp add: assms(1) max_def)
qed

lemma length_of_keys: "map fst c = [0..<k] \<Longrightarrow> length c = k"
  by (metis length_map length_upt minus_nat.diff_0)

lemma months_fold_keys:
  assumes "map fst c = [0..<length c]"
  shows "map fst (foldl (month_step r ms) c [0..<n]) = [0..<max (length c) n]"
proof (induction n)
  case 0
  show ?case using assms by simp
next
  case (Suc n)
  let ?c' = "foldl (month_step r ms) c [0..<n]"
  have len: "length ?c' = max (length c) n" using Suc.IH by (rule length_of_keys)
  have keys: "map fst ?c' = [0..<length ?c']" using Suc.IH len by simp
  have "map fst (month_step r ms ?c' n) = [0..<max (length ?c') (Suc n)]"
    using keys by (rule month_step_keys) (simp add: len)
  then show ?case by (simp add: len max_def)
qed

lemma months_loop_keys:
  assumes "map fst c = [0..<length c]"
  shows "map fst (months_loop r mso c) = [0..<length (months_loop r mso c)]"
proof (cases mso)
  case None
  then show ?thesis using assms by (simp add: months_loop_def)
next
  case (Some ms)
  have "map fst (months_loop r mso c) = [0..<max (length c) (nat (min ms 36 + 1))]"
    using months_fold_keys [OF assms] by (simp add: months_loop_def Some)
  then show ?thesis using length_of_keys by fastforce
qed

lemma curve_step_keys_ok:
  assumes "curve_keys_ok cm"
  shows "curve_keys_ok (curve_step now cm r)"
proof (cases "attributed r")
  case False
  then have "curve_step now cm r = cm"
    by (auto simp: curve_step_def attributed_def truthy_text_def split: option.splits)
  then show ?thesis using assms by simp
next
  case True
  then obtain p where p: "provider_name_per_tbr r = Some p" "p \<noteq> []"
    by (auto simp: attributed_def truthy_text_def split: option.splits)
  let ?c = "case map_of cm p of None \<Rightarrow> [] | Some c \<Rightarrow> c"
  have step: "curve_step now cm r = AList.update p (months_loop r (monthsSince_of now r) ?c) cm"
    using p by (simp add: curve_step_def Let_def)
  have "map fst ?c = [0..<length ?c]"
  proof (cases "map_of cm p")
    case None
    then show ?thesis by simp
  next
    case (Some c)
    then have "(p, c) \<in> set cm" by (rule map_of_SomeD)
    then show ?thesis using assms Some by (auto simp: curve_keys_ok_def list_all_iff)
  qed
  then have new: "map fst (months_loop r (monthsSince_of now r) ?c)
      = [0..<length (months_loop r (monthsSince_of now r) ?c)]"
    by (rule months_loop_keys)
  have "distinct (map fst (curve_step now cm r))"
    unfolding step using assms by (auto simp: curve_keys_ok_def intro: distinct_update)
  moreover have "list_all (\<lambda>pc. map fst (snd pc) = [0..<length (snd pc)]) (curve_step now cm r)"
    unfolding step list_all_iff
    using assms new set_update_subset [of p "months_loop r (monthsSince_of now r) ?c" cm]
    by (auto simp: curve_keys_ok_def list_all_iff)
  ultimately show ?thesis by (simp add: curve_keys_ok_def)
qed

lemma curveMap_keys_ok_foldl:
  "curve_keys_ok cm \<Longrightarrow> curve_keys_ok (foldl (curve_step now) cm rs)"
  by (induction rs arbitrary: cm) (simp_all add: curve_step_keys_ok)

lemma curveMap_keys_ok: "curve_keys_ok (curveMap_of now rs)"
  unfolding curveMap_of_def by (rule curveMap_keys_ok_foldl) (simp add: curve_keys_ok_def)

lemma emit_points_month: "map cd_month (emit_points p cum c) = map fst c"
  by (induction p cum c rule: emit_points.induct) (simp_all add: Let_def)

lemma emit_points_rate:
  "map cd_recoveryRate (emit_points p cum c) = map (\<lambda>x. month_rate (snd x)) c"
  by (induction p cum c rule: emit_points.induct) (simp_all add: Let_def)

lemma emit_points_provider: "x \<in> set (emit_points p cum c) \<Longrightarrow> cd_provider x = p"
  by (induction p cum c rule: emit_points.induct) (auto simp: Let_def)

lemma emit_points_length: "length (emit_points p cum c) = length c"
  by (induction p cum c rule: emit_points.induct) (simp_all add: Let_def)

lemma emit_points_cumulative:
  "i < length c \<Longrightarrow>
   cd_cumulativeRecovery (emit_points p cum c ! i)
     = cum + sum_list (map cd_recoveryRate (take (Suc i) (emit_points p cum c)))"
proof (induction p cum c arbitrary: i rule: emit_points.induct)
  case (1 provider cumulative)
  then show ?case by simp
next
  case (2 provider cumulative month d rest)
  show ?case
  proof (cases i)
    case 0
    then show ?thesis by (simp add: Let_def)
  next
    case (Suc j)
    with "2.prems" have "j < length rest" by simp
    from "2.IH" [OF refl refl this] show ?thesis
      by (simp add: Suc Let_def add.assoc)
  qed
qed

lemma provider_points_emit:
  "provider_points q (emit_points p cum c) = (if q = p then emit_points p cum c else [])"
  using emit_points_provider [of _ p cum c]
  by (auto simp: provider_points_def filter_empty_conv filter_id_conv)

lemma provider_points_curves:
  "distinct (map fst cm) \<Longrightarrow>
   provider_points q (curves_of cm)
     = (case map_of cm q of None \<Rightarrow> [] | Some c \<Rightarrow> emit_points q 0 c)"
proof (induction cm)
  case Nil
  show ?case by (simp add: curves_of_def provider_points_def)
next
  case (Cons pc cm)
  obtain p c where pc: "pc = (p, c)" by (cases pc)
  have split: "provider_points q (curves_of ((p, c) # cm))
      = provider_points q (emit_points p 0 c) @ provider_points q (curves_of cm)"
    by (simp add: curves_of_def provider_points_def)
  show ?case
  proof (cases "q = p")
    case True
    with Cons.prems pc have "map_of cm p = None" by (simp add: map_of_eq_None_iff)
    with Cons.IH Cons.prems True have rest: "provider_points p (curves_of cm) = []" by simp
    show ?thesis
      using split [unfolded True] rest by (simp add: pc True provider_points_emit)
  next
    case False
    with Cons show ?thesis by (simp add: split provider_points_emit pc)
  qed
qed

text \<open>
  Claim C7. For every provider the points of the output come in increasing month order (the
  months are 0, 1, 2, ... without a gap), the recovery rate of a point is the recovered total
  over the invested total of its month times 100, and 0 when the invested total is not
  positive, and the cumulative recovery of a point is the sum of the recovery rates of the
  provider's points up to and including it.
\<close>

theorem curve_points_ordered:
  "map cd_month (provider_points p (fetchCurveData now rs))
     = [0..<length (provider_points p (fetchCurveData now rs))]
   \<and> sorted_wrt (<) (map cd_month (provider_points p (fetchCurveData now rs)))
   \<and> map cd_recoveryRate (provider_points p (fetchCurveData now rs))
     = map (\<lambda>x. if c_totalInvested (snd x) > 0
                 then (c_totalRecovered (snd x) / c_totalInvested (snd x)) * 100 else 0)
         (case map_of (curveMap_of now rs) p of None \<Rightarrow> [] | Some c \<Rightarrow> c)
   \<and> map cd_cumulativeRecovery (provider_points p (fetchCurveData now rs))
     = map (\<lambda>i. sum_list (map cd_recoveryRate
                   (take (Suc i) (provider_points p (fetchCurveData now rs)))))
         [0..<length (provider_points p (fetchCurveData now rs))]"
proof -
  let ?cm = "curveMap_of now rs"
  let ?c = "case map_of ?cm p of None \<Rightarrow> [] | Some c \<Rightarrow> c"
  have ok: "curve_keys_ok ?cm" by (rule curveMap_keys_ok)
  then have pts: "provider_points p (fetchCurveData now rs) = emit_points p 0 ?c"
    by (simp add: fetchCurveData_def provider_points_curves curve_keys_ok_def split: option.splits)
  have keys: "map fst ?c = [0..<length ?c]"
  proof (cases "map_of ?cm p")
    case None
    then show ?thesis by simp
  next
    case (Some c)
    then have "(p, c) \<in> set ?cm" by (rule map_of_SomeD)
    then show ?thesis using ok Some by (auto simp: curve_keys_ok_def list_all_iff)
  qed
  have months: "map cd_month (emit_points p 0 ?c) = [0..<length (emit_points p 0 ?c)]"
    using keys by (simp add: emit_points_month emit_points_length)
  have sorted: "sorted_wrt (<) (map cd_month (emit_points p 0 ?c))"
    unfolding months by simp
  have rates: "map cd_recoveryRate (emit_points p 0 ?c)
      = map (\<lambda>x. if c_totalInvested (snd x) > 0
                 then (c_totalRecovered (snd x) / c_totalInvested (snd x)) * 100 else 0) ?c"
    by (simp add: emit_points_rate month_rate_def)
  have cumul: "map cd_cumulativeRecovery (emit_points p 0 ?c)
     = map (\<lambda>i. sum_list (map cd_recoveryRate (take (Suc i) (emit_points p 0 ?c))))
         [0..<length (emit_points p 0 ?c)]"
    by (rule nth_equalityI) (simp_all add: emit_points_length emit_points_cumulative)
  show ?thesis unfolding pts using months sorted rates cumul by simp
qed

section \<open>Repeating the computations\<close>

lemma monthsSince_repaid:
  "truthy_date (repayment_date r) \<Longrightarrow> monthsSince_of now1 r = monthsSince_of now2 r"
  by (simp add: monthsSince_of_def)

lemma curve_step_clock:
  assumes "attributed r \<longrightarrow> monthsSince_of now1 r = monthsSince_of now2 r"
  shows "curve_step now1 cm r = curve_step now2 cm r"
  using assms
  by (auto simp: curve_step_def attributed_def truthy_text_def Let_def split: option.splits)

lemma curveMap_clock:
  assumes "\<forall>r \<in> set rs. attributed r \<longrightarrow> monthsSince_of now1 r = monthsSince_of now2 r"
  shows "foldl (curve_step now1) cm rs = foldl (curve_step now2) cm rs"
  using assms
proof (induction rs arbitrary: cm)
  case Nil
  show ?case by simp
next
  case (Cons r rs)
  then have "curve_step now1 cm r = curve_step now2 cm r" by (simp add: curve_step_clock)
  with Cons show ?case by simp
qed

lemma upt_two: "[0..<2] = [0, 1::nat]"
  by (simp add: upt_rec)

text \<open>
  Claim C8, as amended. The curves read the clock for a case without repayment date, so two
  runs on the same rows give the same output when, for every row with a provider, the elapsed
  months are the same at both clock readings: at the same reading, or when every such row has
  a repayment date. Grouping and scoring do not read the clock.
\<close>

theorem pipeline_repeatable:
  assumes "\<forall>r \<in> set rs. attributed r \<longrightarrow> monthsSince_of now1 r = monthsSince_of now2 r"
  shows "pipeline now1 rs = pipeline now2 rs"
  using curveMap_clock [OF assms, of "[]"]
  by (simp add: pipeline_def fetchCurveData_def curveMap_of_def)

theorem pipeline_repeatable_witness:
  "truthy_date (repayment_date row_closed)
   \<and> pipeline 0 [row_closed] = pipeline 2592000000 [row_closed]"
proof -
  have dated: "truthy_date (repayment_date row_closed)"
    by (simp add: row_closed_def)
  then have "monthsSince_of 0 row_closed = monthsSince_of 2592000000 row_closed"
    by (rule monthsSince_repaid)
  then show ?thesis
    using dated pipeline_repeatable [of "[row_closed]" 0 2592000000] by simp
qed

text \<open>
  Claim C8 as stated fails: a case without repayment date that starts at time 0 has one
  point when the clock reads 0 and two points when it reads 30 days later.
\<close>

theorem pipeline_clock_counterexample:
  "pipeline 0 [row_pending] \<noteq> pipeline 2592000000 [row_pending]"
proof -
  have a: "length (fetchCurveData 0 [row_pending]) = 1"
    by (simp add: fetchCurveData_def curveMap_of_def curve_step_def months_loop_def
        monthsSince_of_def month_step_def curves_of_def row_pending_def Let_def)
  have b: "length (fetchCurveData 2592000000 [row_pending]) = 2"
    by (simp add: fetchCurveData_def curveMap_of_def curve_step_def months_loop_def
        monthsSince_of_def month_step_def curves_of_def row_pending_def Let_def upt_two)
  from a b have "fetchCurveData 0 [row_pending] \<noteq> fetchCurveData 2592000000 [row_pending]"
    by auto
  then show ?thesis by (simp add: pipeline_def)
qed

section \<open>Errors of the analytics\<close>

text \<open>
  Claim C9. The scores are meant never to fail. A row with a provider and an origination date
  that is no date makes \<^verbatim>\<open>toISOString\<close> throw: the computation of the analytics ends with a
  RangeError and gives no scores.
\<close>

theorem invalid_origination_throws: "fetchAnalyticsData [row_bad_date] = Inl RangeError"
  by (simp add: fetchAnalyticsData_def analytics_step_def row_bad_date_def Let_def)

text \<open>The analytics fail exactly when some row with a provider has an invalid origination
  date; a null date is the epoch and does not fail.\<close>

lemma analytics_step_throws_iff:
  "(analytics_step m r = Inl RangeError) = (attributed r \<and> new_date (origination_date r) = None)"
  by (auto simp: analytics_step_def attributed_def truthy_text_def Let_def split: option.splits)

lemma analytics_loop_throws_iff:
  "(analytics_loop m rs = Inl RangeError)
   = (\<exists>r \<in> set rs. attributed r \<and> new_date (origination_date r) = None)"
proof (induction rs arbitrary: m)
  case Nil
  show ?case by simp
next
  case (Cons r rs)
  show ?case
  proof (cases "analytics_step m r")
    case (Inl e)
    then have "analytics_step m r = Inl RangeError" by (cases e) simp
    then show ?thesis using analytics_step_throws_iff [of m r] by simp
  next
    case (Inr m')
    then have "\<not> (attributed r \<and> new_date (origination_date r) = None)"
      using analytics_step_throws_iff [of m r] by simp
    then show ?thesis using Inr Cons.IH [of m'] by auto
  qed
qed

lemma fetchAnalyticsData_throws_iff:
  "(fetchAnalyticsData rs = Inl RangeError)
   = (\<exists>r \<in> set rs. attributed r \<and> new_date (origination_date r) = None)"
proof (cases "analytics_loop [] rs")
  case (Inl e)
  then show ?thesis
    using analytics_loop_throws_iff [of "[]" rs] by (simp add: fetchAnalyticsData_def)
next
  case (Inr m)
  then show ?thesis
    using analytics_loop_throws_iff [of "[]" rs] by (simp add: fetchAnalyticsData_def)
qed

end

